theory Spec2Isabelle
  imports Main "HOL-Library.AList"
begin

section \<open>The fullscreen workspace manager of the Kiwi GNOME Shell extension\<close>

text \<open>
  The development embeds the class \<open>FullscreenWorkspaceManager\<close> (the module that moves
  fullscreen windows onto workspaces of their own). The manager lives inside the
  compositor and works on objects it does not own: the workspace manager, its
  workspaces and the windows. Those host objects are modelled by the first fields of
  the state record; the remaining fields are the manager's own tables.

  Conventions.
  \<^item> Indices and counts are JavaScript numbers that only ever hold integers: \<open>int\<close>.
  \<^item> A window object is a reference \<open>wref\<close>; its host attributes and the three
    \<open>_kiwi_\<close> properties the manager attaches to it are one \<open>window\<close> record.
    An \<open>undefined\<close> property is \<open>None\<close>; \<open>_kiwi_isolated\<close> is only tested for
    truthiness, so \<open>undefined\<close> and \<open>false\<close> are both \<open>False\<close>.
  \<^item> A workspace object is identified with its index; \<open>get_workspace_by_index\<close>
    answers \<open>null\<close> (\<open>None\<close>) outside \<open>0 \<le> i < n_workspaces\<close>.
  \<^item> A JavaScript \<open>Map\<close> that is iterated is an association list in insertion
    order (\<open>AList.update\<close> is \<open>Map.set\<close>, \<open>AList.delete\<close> is \<open>Map.delete\<close>);
    a table that is only looked up is a HOL map or a set.
  \<^item> A pending GLib source is an entry of the table that tracks it; the entry holds
    what the callback's closure captured. Source ids are never zero, so a table
    entry is always truthy.
\<close>

definition MIN_WORKSPACES :: int where
  "MIN_WORKSPACES = 2"

definition KEEP_EMPTY_WORKSPACE_AT_END :: bool where
  "KEEP_EMPTY_WORKSPACE_AT_END = True"

definition MAX_WORKSPACES :: int where
  "MAX_WORKSPACES = 36"

type_synonym wref = nat

record window =
  skip_taskbar :: bool
  fullscreen :: bool
  on_primary_monitor :: bool
  workspace :: "int option"
  kiwi_originalWorkspaceIndex :: "int option"
  kiwi_isolated :: bool
  kiwi_fullscreenWorkspaceIndex :: "int option"

record mutter_settings =
  dynamic_workspaces :: bool
  workspaces_only_on_primary :: bool

datatype 'a js_result = Throws | Returns 'a

datatype cleanup_task = CleanupOne int | CleanupAll

record manager =
  wm_present :: bool
  n_workspaces :: int
  active_index :: int
  managed :: "wref list"
  destroyed :: "wref set"
  win :: "wref \<Rightarrow> window"
  mutterSettings :: "mutter_settings option"
  wmPreferences :: "int js_result option"
  windowSignals :: "wref list"
  pendingIsolation :: "wref set"
  pendingRestore :: "wref \<rightharpoonup> (int option \<times> int option)"
  fullscreenWorkspaces :: "(int \<times> wref) list"
  pendingCleanup :: "int \<rightharpoonup> cleanup_task"
  pendingWindowCreated :: "wref set"
  pendingWindowUnmanaged :: "wref \<rightharpoonup> (int option \<times> int option \<times> int option)"
  checkWorkspacesId :: bool
  isCreatingWorkspace :: bool

subsection \<open>Host objects\<close>

definition upd_win :: "manager \<Rightarrow> wref \<Rightarrow> (window \<Rightarrow> window) \<Rightarrow> manager" where
  "upd_win s w f = s\<lparr>win := (win s)(w := f (win s w))\<rparr>"

definition get_workspace_by_index :: "manager \<Rightarrow> int \<Rightarrow> int option" where
  "get_workspace_by_index s i = (if 0 \<le> i \<and> i < n_workspaces s then Some i else None)"

definition list_windows :: "manager \<Rightarrow> int \<Rightarrow> wref list" where
  "list_windows s i = filter (\<lambda>w. workspace (win s w) = Some i) (managed s)"

definition change_workspace :: "manager \<Rightarrow> wref \<Rightarrow> int \<Rightarrow> manager" where
  "change_workspace s w i = upd_win s w (\<lambda>r. r\<lparr>workspace := Some i\<rparr>)"

subsection \<open>Settings\<close>

definition isDynamicWorkspaceMode :: "manager \<Rightarrow> bool" where
  "isDynamicWorkspaceMode s =
     (case mutterSettings s of None \<Rightarrow> True | Some m \<Rightarrow> dynamic_workspaces m)"

definition isWorkspacesOnlyOnPrimary :: "manager \<Rightarrow> bool" where
  "isWorkspacesOnlyOnPrimary s =
     (case mutterSettings s of None \<Rightarrow> False | Some m \<Rightarrow> workspaces_only_on_primary m)"

definition filterWorkspaceRelevantWindows :: "manager \<Rightarrow> wref list \<Rightarrow> wref list" where
  "filterWorkspaceRelevantWindows s windows =
     (if \<not> isWorkspacesOnlyOnPrimary s then windows
      else filter (\<lambda>w. on_primary_monitor (win s w)) windows)"

text \<open>
  The expression
  \<^verbatim>\<open>this._filterWorkspaceRelevantWindows(ws.list_windows().filter(w => !w.skip_taskbar))\<close>
  that the source repeats at every emptiness test.
\<close>

definition relevant_windows :: "manager \<Rightarrow> int \<Rightarrow> wref list" where
  "relevant_windows s i =
     filterWorkspaceRelevantWindows s
       (filter (\<lambda>w. \<not> skip_taskbar (win s w)) (list_windows s i))"

definition getMaxAllowedWorkspaces :: "manager \<Rightarrow> int" where
  "getMaxAllowedWorkspaces s =
     (if \<not> wm_present s then MAX_WORKSPACES
      else if isDynamicWorkspaceMode s then MAX_WORKSPACES
      else case wmPreferences s of
             Some (Returns numWorkspaces) \<Rightarrow> min numWorkspaces MAX_WORKSPACES
           | Some Throws \<Rightarrow> min (n_workspaces s) MAX_WORKSPACES
           | None \<Rightarrow> min (n_workspaces s) MAX_WORKSPACES)"

definition canAppendWorkspace :: "bool \<Rightarrow> manager \<Rightarrow> bool" where
  "canAppendWorkspace bypassNumWorkspacesLimit s =
     (if \<not> wm_present s then False
      else if n_workspaces s \<ge> MAX_WORKSPACES then False
      else if \<not> bypassNumWorkspacesLimit \<and> n_workspaces s \<ge> getMaxAllowedWorkspaces s then False
      else if isCreatingWorkspace s then False
      else True)"

subsection \<open>Lookups in the workspace list\<close>

definition isFullscreenWorkspace :: "manager \<Rightarrow> int \<Rightarrow> bool" where
  "isFullscreenWorkspace s workspaceIndex = (map_of (fullscreenWorkspaces s) workspaceIndex \<noteq> None)"

definition getFullscreenWindowOnWorkspace :: "manager \<Rightarrow> int \<Rightarrow> wref option" where
  "getFullscreenWindowOnWorkspace s workspaceIndex = map_of (fullscreenWorkspaces s) workspaceIndex"

definition getMainWorkspace :: "manager \<Rightarrow> int option" where
  "getMainWorkspace s =
     (if \<not> wm_present s \<or> n_workspaces s < 1 then None else get_workspace_by_index s 0)"

text \<open>
  \<^verbatim>\<open>for (let i = wm.n_workspaces - 1; i >= 0; i--)\<close>: the counter \<open>k\<close> is the number of
  indices still to visit, the index visited is \<open>k - 1\<close>.
\<close>

fun last_occupied_from :: "manager \<Rightarrow> nat \<Rightarrow> int" where
  "last_occupied_from s 0 = -1"
| "last_occupied_from s (Suc k) =
     (case get_workspace_by_index s (int k) of
        Some ws \<Rightarrow> if length (relevant_windows s ws) > 0 then int k else last_occupied_from s k
      | None \<Rightarrow> last_occupied_from s k)"

definition findLastOccupiedWorkspaceIndex :: "manager \<Rightarrow> int" where
  "findLastOccupiedWorkspaceIndex s =
     (if \<not> wm_present s then -1 else last_occupied_from s (nat (n_workspaces s)))"

subsection \<open>Creating workspaces\<close>

definition queueCheckWorkspaces :: "manager \<Rightarrow> manager" where
  "queueCheckWorkspaces s = (if checkWorkspacesId s then s else s\<lparr>checkWorkspacesId := True\<rparr>)"

text \<open>
  Host: \<open>append_new_workspace\<close> adds a workspace at the end; the count changes, so the
  host notifies \<open>n-workspaces\<close>, to which \<open>_queueCheckWorkspaces\<close> is connected. The new
  workspace has the old count as its index.
\<close>

definition append_new_workspace :: "manager \<Rightarrow> manager" where
  "append_new_workspace s = queueCheckWorkspaces (s\<lparr>n_workspaces := n_workspaces s + 1\<rparr>)"

text \<open>
  The three statements
  \<^verbatim>\<open>this._isCreatingWorkspace = true; wm.append_new_workspace(...); this._isCreatingWorkspace = false;\<close>
\<close>

definition append_guarded :: "manager \<Rightarrow> manager" where
  "append_guarded s =
     (let s1 = s\<lparr>isCreatingWorkspace := True\<rparr>;
          s2 = append_new_workspace s1
      in s2\<lparr>isCreatingWorkspace := False\<rparr>)"

function ensure_min_loop :: "manager \<Rightarrow> manager" where
  "ensure_min_loop s =
     (if n_workspaces s < MIN_WORKSPACES \<and> canAppendWorkspace True s
      then ensure_min_loop (append_guarded s) else s)"
  by pat_completeness auto
termination
  by (relation "measure (\<lambda>s. nat (MIN_WORKSPACES - n_workspaces s))")
     (auto simp: append_guarded_def append_new_workspace_def queueCheckWorkspaces_def Let_def)

declare ensure_min_loop.simps [simp del]

definition ensureEmptyWorkspaceAtEnd :: "manager \<Rightarrow> manager" where
  "ensureEmptyWorkspaceAtEnd s =
     (if \<not> wm_present s then s
      else if isCreatingWorkspace s then s
      else
        let s1 = ensure_min_loop s in
        if \<not> KEEP_EMPTY_WORKSPACE_AT_END then s1
        else
          let lastOccupied = findLastOccupiedWorkspaceIndex s1 in
          if lastOccupied \<ge> 0 \<and> n_workspaces s1 \<le> lastOccupied + 1 \<and> canAppendWorkspace True s1
          then append_guarded s1 else s1)"

definition checkWorkspaces :: "manager \<Rightarrow> manager" where
  "checkWorkspaces s = ensureEmptyWorkspaceAtEnd s"

subsection \<open>Cleanup timers and workspace switches\<close>

definition cancelWorkspaceCleanup :: "manager \<Rightarrow> int \<Rightarrow> manager" where
  "cancelWorkspaceCleanup s workspaceIndex =
     (case pendingCleanup s workspaceIndex of
        Some sourceId \<Rightarrow> s\<lparr>pendingCleanup := (pendingCleanup s)(workspaceIndex := None)\<rparr>
      | None \<Rightarrow> s)"

definition scheduleWorkspaceCleanup :: "manager \<Rightarrow> int \<Rightarrow> manager" where
  "scheduleWorkspaceCleanup s workspaceIndex =
     (let s1 = cancelWorkspaceCleanup s workspaceIndex
      in s1\<lparr>pendingCleanup := (pendingCleanup s1)(workspaceIndex \<mapsto> CleanupOne workspaceIndex)\<rparr>)"

definition CLEANUP_ALL_ID :: int where
  "CLEANUP_ALL_ID = -1"

definition scheduleCleanupAllEmptyWorkspaces :: "manager \<Rightarrow> manager" where
  "scheduleCleanupAllEmptyWorkspaces s =
     (let s1 = cancelWorkspaceCleanup s CLEANUP_ALL_ID
      in s1\<lparr>pendingCleanup := (pendingCleanup s1)(CLEANUP_ALL_ID \<mapsto> CleanupAll)\<rparr>)"

definition onWorkspaceSwitched :: "manager \<Rightarrow> int \<Rightarrow> int \<Rightarrow> manager" where
  "onWorkspaceSwitched s from to =
     (let s1 = cancelWorkspaceCleanup s to in
      if from \<noteq> to \<and> from > 0 then
        (if \<not> isDynamicWorkspaceMode s1 then scheduleCleanupAllEmptyWorkspaces s1
         else scheduleWorkspaceCleanup s1 from)
      else s1)"

text \<open>
  Host: activating the workspace that is already active does nothing; otherwise the
  active workspace changes and \<open>workspace-switched\<close> is emitted, synchronously, with
  the two indices.
\<close>

definition activate :: "manager \<Rightarrow> int \<Rightarrow> manager" where
  "activate s i =
     (if active_index s = i then s
      else onWorkspaceSwitched (s\<lparr>active_index := i\<rparr>) (active_index s) i)"

subsection \<open>Removing workspaces\<close>

text \<open>
  Host: \<open>remove_workspace\<close> refuses to remove the only workspace. Otherwise the
  windows of the removed workspace are relocated to its neighbour (the one before
  it if there is one), the neighbour is activated if the removed workspace was the
  active one, every later workspace moves down by one index, and the count
  changes (so \<open>n-workspaces\<close> is notified).
\<close>

definition remove_workspace :: "manager \<Rightarrow> int \<Rightarrow> manager" where
  "remove_workspace s i =
     (if n_workspaces s \<le> 1 \<or> i < 0 \<or> i \<ge> n_workspaces s then s
      else
        let neighbour = (if i > 0 then i - 1 else i + 1);
            s1 = (if active_index s = i then activate s neighbour else s);
            reindex = (\<lambda>k. let k' = (if k = i then neighbour else k)
                           in if k' > i then k' - 1 else k');
            s2 = s1\<lparr>win := (\<lambda>w. (win s1 w)\<lparr>workspace := map_option reindex (workspace (win s1 w))\<rparr>),
                    active_index := reindex (active_index s1),
                    n_workspaces := n_workspaces s1 - 1\<rparr>
        in queueCheckWorkspaces s2)"

definition shift_entry ::
  "int \<Rightarrow> int \<times> wref \<Rightarrow> (int \<times> wref) list \<times> manager \<Rightarrow> (int \<times> wref) list \<times> manager" where
  "shift_entry removedIndex e acc =
     (case e of (idx, w) \<Rightarrow> case acc of (newMap, s) \<Rightarrow>
        if idx > removedIndex then
          let newIdx = idx - 1 in
            (AList.update newIdx w newMap,
             if kiwi_fullscreenWorkspaceIndex (win s w) \<noteq> None
             then upd_win s w (\<lambda>r. r\<lparr>kiwi_fullscreenWorkspaceIndex := Some newIdx\<rparr>)
             else s)
        else if idx < removedIndex then (AList.update idx w newMap, s)
        else (newMap, s))"

definition shift_original :: "int \<Rightarrow> wref \<Rightarrow> manager \<Rightarrow> manager" where
  "shift_original removedIndex w s =
     (case kiwi_originalWorkspaceIndex (win s w) of
        Some orig \<Rightarrow>
          if orig > removedIndex
          then upd_win s w (\<lambda>r. r\<lparr>kiwi_originalWorkspaceIndex := Some (orig - 1)\<rparr>)
          else s
      | None \<Rightarrow> s)"

definition shiftFullscreenIndicesAfterRemove :: "manager \<Rightarrow> int \<Rightarrow> manager" where
  "shiftFullscreenIndicesAfterRemove s removedIndex =
     (case fold (shift_entry removedIndex) (fullscreenWorkspaces s) ([], s) of
        (newMap, s1) \<Rightarrow>
          let s2 = s1\<lparr>fullscreenWorkspaces := newMap\<rparr>
          in fold (shift_original removedIndex) (windowSignals s2) s2)"

definition remove_and_shift :: "manager \<Rightarrow> int \<Rightarrow> manager" where
  "remove_and_shift s idx =
     (let s1 = s\<lparr>fullscreenWorkspaces := AList.delete idx (fullscreenWorkspaces s)\<rparr>;
          s2 = remove_workspace s1 idx
      in shiftFullscreenIndicesAfterRemove s2 idx)"

definition cleanupWorkspaceIfEmpty :: "manager \<Rightarrow> int \<Rightarrow> manager" where
  "cleanupWorkspaceIfEmpty s workspaceIndex =
     (if \<not> wm_present s then s
      else if workspaceIndex \<le> 0 then s
      else if n_workspaces s \<le> MIN_WORKSPACES then s
      else if workspaceIndex \<ge> n_workspaces s then s
      else case get_workspace_by_index s workspaceIndex of
             None \<Rightarrow> s
           | Some ws \<Rightarrow>
               if length (relevant_windows s ws) = 0 \<and> \<not> active_index s = ws then
                 let lastOccupied = findLastOccupiedWorkspaceIndex s in
                 if workspaceIndex = lastOccupied + 1 \<and> n_workspaces s = workspaceIndex + 1 then s
                 else if n_workspaces s - 1 < MIN_WORKSPACES then s
                 else ensureEmptyWorkspaceAtEnd (remove_and_shift s workspaceIndex)
               else ensureEmptyWorkspaceAtEnd s)"

fun cleanup_all_loop :: "manager \<Rightarrow> int list \<Rightarrow> manager" where
  "cleanup_all_loop s [] = s"
| "cleanup_all_loop s (idx # rest) =
     (if n_workspaces s \<le> MIN_WORKSPACES then s
      else if idx \<ge> n_workspaces s \<or> idx \<le> 0 then cleanup_all_loop s rest
      else case get_workspace_by_index s idx of
             None \<Rightarrow> cleanup_all_loop s rest
           | Some ws \<Rightarrow>
               if length (relevant_windows s ws) = 0 \<and> \<not> active_index s = ws
               then cleanup_all_loop (remove_and_shift s idx) rest
               else cleanup_all_loop s rest)"

definition cleanupAllEmptyWorkspaces :: "manager \<Rightarrow> manager" where
  "cleanupAllEmptyWorkspaces s =
     (if \<not> wm_present s then s
      else if n_workspaces s \<le> MIN_WORKSPACES then s
      else
        let activeIndex = active_index s;
            lastOccupied = findLastOccupiedWorkspaceIndex s;
            emptyIndices =
              filter (\<lambda>i. \<not> i = activeIndex
                        \<and> \<not> (KEEP_EMPTY_WORKSPACE_AT_END \<and> i = lastOccupied + 1
                              \<and> i = n_workspaces s - 1)
                        \<and> (case get_workspace_by_index s i of
                              Some ws \<Rightarrow> length (relevant_windows s ws) = 0
                            | None \<Rightarrow> False))
                     [1 .. n_workspaces s - 1];
            s1 = cleanup_all_loop s (rev (sort emptyIndices))
        in ensureEmptyWorkspaceAtEnd s1)"

definition cleanupTimerFired :: "manager \<Rightarrow> int \<Rightarrow> manager" where
  "cleanupTimerFired s key =
     (case pendingCleanup s key of
        None \<Rightarrow> s
      | Some task \<Rightarrow>
          let s1 = s\<lparr>pendingCleanup := (pendingCleanup s)(key := None)\<rparr>
          in (case task of
                CleanupOne workspaceIndex \<Rightarrow> cleanupWorkspaceIfEmpty s1 workspaceIndex
              | CleanupAll \<Rightarrow> cleanupAllEmptyWorkspaces s1))"

definition checkWorkspacesIdle :: "manager \<Rightarrow> manager" where
  "checkWorkspacesIdle s =
     (if \<not> checkWorkspacesId s then s
      else checkWorkspaces (s\<lparr>checkWorkspacesId := False\<rparr>))"

subsection \<open>Tracking windows\<close>

definition captureOriginalWorkspace :: "manager \<Rightarrow> wref \<Rightarrow> manager" where
  "captureOriginalWorkspace s w =
     (if kiwi_originalWorkspaceIndex (win s w) = None then
        upd_win s w (\<lambda>r. r\<lparr>kiwi_originalWorkspaceIndex :=
                              Some (case workspace r of Some i \<Rightarrow> i | None \<Rightarrow> 0)\<rparr>)
      else s)"

definition scheduleIsolation :: "manager \<Rightarrow> wref \<Rightarrow> manager" where
  "scheduleIsolation s w =
     (if kiwi_isolated (win s w) \<or> w \<in> pendingIsolation s then s
      else
        let s1 = captureOriginalWorkspace s w
        in s1\<lparr>pendingIsolation := insert w (pendingIsolation s1)\<rparr>)"

definition cancelPendingIsolation :: "manager \<Rightarrow> wref \<Rightarrow> manager" where
  "cancelPendingIsolation s w =
     (if w \<in> pendingIsolation s then s\<lparr>pendingIsolation := pendingIsolation s - {w}\<rparr> else s)"

definition cancelPendingRestore :: "manager \<Rightarrow> wref \<Rightarrow> manager" where
  "cancelPendingRestore s w =
     (case pendingRestore s w of
        Some sourceId \<Rightarrow> s\<lparr>pendingRestore := (pendingRestore s)(w := None)\<rparr>
      | None \<Rightarrow> s)"

text \<open>
  \<open>_restoreWindowFromFullscreen\<close>: the timer's closure captures \<open>originalIndex\<close> and
  \<open>fullscreenWsIndex\<close> as they are when the window leaves fullscreen.
\<close>

definition restoreWindowFromFullscreen :: "manager \<Rightarrow> wref \<Rightarrow> manager" where
  "restoreWindowFromFullscreen s w =
     (if \<not> kiwi_isolated (win s w) then s
      else
        let s1 = cancelPendingRestore s w;
            fullscreenWsIndex = kiwi_fullscreenWorkspaceIndex (win s1 w);
            originalIndex = kiwi_originalWorkspaceIndex (win s1 w);
            s2 = upd_win s1 w (\<lambda>r. r\<lparr>kiwi_isolated := False,
                                         kiwi_fullscreenWorkspaceIndex := None\<rparr>);
            s3 = (case fullscreenWsIndex of
                    Some f \<Rightarrow> s2\<lparr>fullscreenWorkspaces := AList.delete f (fullscreenWorkspaces s2)\<rparr>
                  | None \<Rightarrow> s2)
        in s3\<lparr>pendingRestore := (pendingRestore s3)(w \<mapsto> (originalIndex, fullscreenWsIndex))\<rparr>)"

definition onWindowFullscreenChanged :: "manager \<Rightarrow> wref \<Rightarrow> manager" where
  "onWindowFullscreenChanged s w =
     (if fullscreen (win s w) then scheduleIsolation s w
      else restoreWindowFromFullscreen (cancelPendingIsolation s w) w)"

definition connectWindowSignals :: "manager \<Rightarrow> wref \<Rightarrow> manager" where
  "connectWindowSignals s w =
     (if w \<in> set (windowSignals s) then s
      else if skip_taskbar (win s w) then s
      else
        let s1 = s\<lparr>windowSignals := windowSignals s @ [w]\<rparr>;
            s2 = captureOriginalWorkspace s1 w
        in if fullscreen (win s2 w) then onWindowFullscreenChanged s2 w else s2)"

definition disconnectWindowSignals :: "manager \<Rightarrow> wref \<Rightarrow> manager" where
  "disconnectWindowSignals s w =
     (if w \<in> set (windowSignals s) then s\<lparr>windowSignals := removeAll w (windowSignals s)\<rparr>
      else s)"

subsection \<open>Isolating a fullscreen window\<close>

text \<open>The body of the inner loop \<^verbatim>\<open>for (const w of windowsToMove)\<close> at workspace \<open>i\<close>.\<close>

definition shift_window :: "int \<Rightarrow> int \<Rightarrow> wref \<Rightarrow> manager \<Rightarrow> manager" where
  "shift_window i targetShiftWs w s =
     (let s1 = change_workspace s w targetShiftWs in
      if kiwi_fullscreenWorkspaceIndex (win s1 w) = Some i then
        let s2 = upd_win s1 w (\<lambda>r. r\<lparr>kiwi_fullscreenWorkspaceIndex := Some (i + 1)\<rparr>);
            s3 = s2\<lparr>fullscreenWorkspaces := AList.delete i (fullscreenWorkspaces s2)\<rparr>
        in s3\<lparr>fullscreenWorkspaces := AList.update (i + 1) w (fullscreenWorkspaces s3)\<rparr>
      else s1)"

text \<open>The body of the outer loop at workspace \<open>i\<close>; each \<open>continue\<close> leaves the state as it is.\<close>

definition shift_workspace :: "manager \<Rightarrow> int \<Rightarrow> manager" where
  "shift_workspace s i =
     (case get_workspace_by_index s i of
        None \<Rightarrow> s
      | Some sourceWs \<Rightarrow>
          let windowsToMove = relevant_windows s sourceWs in
          if length windowsToMove = 0 then s
          else (case get_workspace_by_index s (i + 1) of
                  None \<Rightarrow> s
                | Some targetShiftWs \<Rightarrow> fold (shift_window i targetShiftWs) windowsToMove s))"

text \<open>
  \<^verbatim>\<open>for (let i = newLastOccupiedIndex; i >= desiredTargetIndex; i--)\<close>: with \<open>k\<close>
  iterations left the loop is at index \<open>desiredTargetIndex + k - 1\<close>.
\<close>

fun shift_loop :: "manager \<Rightarrow> int \<Rightarrow> nat \<Rightarrow> manager" where
  "shift_loop s desiredTargetIndex 0 = s"
| "shift_loop s desiredTargetIndex (Suc k) =
     shift_loop (shift_workspace s (desiredTargetIndex + int k)) desiredTargetIndex k"

text \<open>
  The branch for an occupied target workspace. \<open>None\<close> is the \<open>return\<close> taken when no
  workspace can be appended. Appending always yields a workspace in the model, so
  the second test of \<open>shiftDestinationWs\<close> never fires.
\<close>

definition shiftOccupiedTarget :: "manager \<Rightarrow> int \<Rightarrow> manager option" where
  "shiftOccupiedTarget s desiredTargetIndex =
     (let lastOccupiedIndex = findLastOccupiedWorkspaceIndex s;
          shiftDestinationWs =
            (if lastOccupiedIndex \<ge> 0 \<and> lastOccupiedIndex + 1 < n_workspaces s
             then get_workspace_by_index s (lastOccupiedIndex + 1) else None)
      in if shiftDestinationWs = None \<and> \<not> canAppendWorkspace True s then None
         else
           let s1 = (if shiftDestinationWs = None then append_guarded s else s);
               newLastOccupiedIndex = findLastOccupiedWorkspaceIndex s1
           in Some (shift_loop s1 desiredTargetIndex
                      (nat (newLastOccupiedIndex - desiredTargetIndex + 1))))"

text \<open>
  The search for \<open>targetWs\<close>: \<open>None\<close> is a \<open>return\<close>, \<open>Some (s', t)\<close> continues with
  \<open>targetWs = t\<close> (still \<open>null\<close> when \<open>t = None\<close>).
\<close>

definition findTargetWorkspace :: "manager \<Rightarrow> int \<Rightarrow> (manager \<times> int option) option" where
  "findTargetWorkspace s desiredTargetIndex =
     (if desiredTargetIndex < n_workspaces s then
        (case get_workspace_by_index s desiredTargetIndex of
           None \<Rightarrow> Some (s, None)
         | Some existingWs \<Rightarrow>
             if length (relevant_windows s existingWs) = 0 then Some (s, Some existingWs)
             else (case shiftOccupiedTarget s desiredTargetIndex of
                     None \<Rightarrow> None
                   | Some s1 \<Rightarrow> Some (s1, Some existingWs)))
      else Some (s, None))"

definition finishIsolation :: "manager \<Rightarrow> wref \<Rightarrow> int \<Rightarrow> int \<Rightarrow> manager" where
  "finishIsolation s w currentIndex targetWs =
     (let finalTargetIndex = targetWs;
          leavingWorkspaceIndex = currentIndex;
          s1 = change_workspace s w targetWs;
          s2 = activate s1 targetWs;
          s3 = upd_win s2 w (\<lambda>r. r\<lparr>kiwi_isolated := True,
                                       kiwi_fullscreenWorkspaceIndex := Some finalTargetIndex\<rparr>);
          s4 = s3\<lparr>fullscreenWorkspaces := AList.update finalTargetIndex w (fullscreenWorkspaces s3)\<rparr>;
          s5 = cancelWorkspaceCleanup s4 finalTargetIndex;
          s6 = (if leavingWorkspaceIndex > 0 then scheduleWorkspaceCleanup s5 leavingWorkspaceIndex
                else s5)
      in ensureEmptyWorkspaceAtEnd s6)"

definition currentIndex_of :: "manager \<Rightarrow> wref \<Rightarrow> int" where
  "currentIndex_of s w = (case workspace (win s w) of Some i \<Rightarrow> i | None \<Rightarrow> 0)"

definition otherWindowsOnCurrent :: "manager \<Rightarrow> wref \<Rightarrow> nat" where
  "otherWindowsOnCurrent s w =
     (let allWindows = filterWorkspaceRelevantWindows s
            (case workspace (win s w) of
               Some i \<Rightarrow> filter (\<lambda>x. \<not> skip_taskbar (win s x)) (list_windows s i)
             | None \<Rightarrow> [])
      in length (filter (\<lambda>x. x \<noteq> w) allWindows))"

definition shouldMove :: "manager \<Rightarrow> wref \<Rightarrow> bool" where
  "shouldMove s w = (currentIndex_of s w = 0 \<or> otherWindowsOnCurrent s w > 0)"

definition isolateFullscreenWindow :: "manager \<Rightarrow> wref \<Rightarrow> manager" where
  "isolateFullscreenWindow s w =
     (if \<not> wm_present s then s
      else if kiwi_isolated (win s w) then s
      else
        let currentIndex = currentIndex_of s w in
        if \<not> shouldMove s w then
          let s1 = upd_win s w (\<lambda>r. r\<lparr>kiwi_isolated := True,
                                      kiwi_fullscreenWorkspaceIndex := Some currentIndex\<rparr>);
              s2 = s1\<lparr>fullscreenWorkspaces := AList.update currentIndex w (fullscreenWorkspaces s1)\<rparr>
          in ensureEmptyWorkspaceAtEnd s2
        else
          let desiredTargetIndex = currentIndex + 1 in
          (case findTargetWorkspace s desiredTargetIndex of
             None \<Rightarrow> s
           | Some (s1, Some targetWs) \<Rightarrow> finishIsolation s1 w currentIndex targetWs
           | Some (s1, None) \<Rightarrow>
               if canAppendWorkspace True s1
               then finishIsolation (append_guarded s1) w currentIndex (n_workspaces s1)
               else s1))"

definition isolationTimerFired :: "manager \<Rightarrow> wref \<Rightarrow> manager" where
  "isolationTimerFired s w =
     (if w \<notin> pendingIsolation s then s
      else
        let s1 = s\<lparr>pendingIsolation := pendingIsolation s - {w}\<rparr>
        in if \<not> fullscreen (win s1 w) then s1 else isolateFullscreenWindow s1 w)"

subsection \<open>Restoring a window that left fullscreen\<close>

definition executeWindowRestore ::
  "manager \<Rightarrow> wref \<Rightarrow> int option \<Rightarrow> int option \<Rightarrow> manager" where
  "executeWindowRestore s w originalIndex fullscreenWsIndex =
     (if \<not> wm_present s then s
      else
        let targetIndex =
              (case originalIndex of
                 Some orig \<Rightarrow> if orig \<ge> 0 then min orig (max 0 (n_workspaces s - 1)) else 0
               | None \<Rightarrow> 0);
            s1 = (case get_workspace_by_index s targetIndex of
                    Some targetWs \<Rightarrow> activate (change_workspace s w targetWs) targetWs
                  | None \<Rightarrow> s);
            s2 = upd_win s1 w (\<lambda>r. r\<lparr>kiwi_originalWorkspaceIndex := None\<rparr>)
        in (case fullscreenWsIndex of
              Some f \<Rightarrow> if f > 0 then scheduleWorkspaceCleanup s2 f else s2
            | None \<Rightarrow> s2))"

definition restoreTimerFired :: "manager \<Rightarrow> wref \<Rightarrow> manager" where
  "restoreTimerFired s w =
     (case pendingRestore s w of
        None \<Rightarrow> s
      | Some (originalIndex, fullscreenWsIndex) \<Rightarrow>
          executeWindowRestore (s\<lparr>pendingRestore := (pendingRestore s)(w := None)\<rparr>)
            w originalIndex fullscreenWsIndex)"

subsection \<open>Closed windows\<close>

definition onWindowUnmanaged :: "manager \<Rightarrow> wref \<Rightarrow> manager" where
  "onWindowUnmanaged s w =
     (let s1 = cancelPendingIsolation s w;
          s2 = cancelPendingRestore s1 w;
          fullscreenWsIndex = kiwi_fullscreenWorkspaceIndex (win s2 w);
          originalIndex = kiwi_originalWorkspaceIndex (win s2 w);
          windowWorkspaceIndex = workspace (win s2 w);
          s3 = disconnectWindowSignals s2 w
      in s3\<lparr>pendingWindowUnmanaged :=
               (pendingWindowUnmanaged s3)(w \<mapsto> (originalIndex, fullscreenWsIndex, windowWorkspaceIndex))\<rparr>)"

text \<open>The idle callback of \<open>_onWindowUnmanaged\<close>, with what its closure captured.\<close>

definition windowUnmanagedDeferred ::
  "manager \<Rightarrow> int option \<Rightarrow> int option \<Rightarrow> int option \<Rightarrow> manager" where
  "windowUnmanagedDeferred s originalIndex fullscreenWsIndex windowWorkspaceIndex =
     (if \<not> wm_present s then s
      else
        let s1 = (case originalIndex of
                    Some orig \<Rightarrow>
                      if orig \<ge> 0 \<and> orig < n_workspaces s then
                        (case get_workspace_by_index s orig of
                           Some ws \<Rightarrow> if \<not> active_index s = ws then activate s ws else s
                         | None \<Rightarrow> s)
                      else s
                  | None \<Rightarrow> s);
            s2 = (case fullscreenWsIndex of
                    Some f \<Rightarrow> s1\<lparr>fullscreenWorkspaces := AList.delete f (fullscreenWorkspaces s1)\<rparr>
                  | None \<Rightarrow> s1);
            wsToCleanup = (case fullscreenWsIndex of Some f \<Rightarrow> Some f | None \<Rightarrow> windowWorkspaceIndex)
        in (case wsToCleanup of
              Some c \<Rightarrow> if c > 0 then scheduleWorkspaceCleanup s2 c else s2
            | None \<Rightarrow> s2))"

definition windowUnmanagedIdle :: "manager \<Rightarrow> wref \<Rightarrow> manager" where
  "windowUnmanagedIdle s w =
     (case pendingWindowUnmanaged s w of
        None \<Rightarrow> s
      | Some (originalIndex, fullscreenWsIndex, windowWorkspaceIndex) \<Rightarrow>
          windowUnmanagedDeferred (s\<lparr>pendingWindowUnmanaged := (pendingWindowUnmanaged s)(w := None)\<rparr>)
            originalIndex fullscreenWsIndex windowWorkspaceIndex)"

subsection \<open>New windows\<close>

definition redirectWindowFromFullscreenWorkspace :: "manager \<Rightarrow> wref \<Rightarrow> manager" where
  "redirectWindowFromFullscreenWorkspace s w =
     (if fullscreen (win s w) \<or> skip_taskbar (win s w) then s
      else if \<not> wm_present s then s
      else case workspace (win s w) of
             None \<Rightarrow> s
           | Some currentIndex \<Rightarrow>
               (case getFullscreenWindowOnWorkspace s currentIndex of
                  None \<Rightarrow> s
                | Some fullscreenWindow \<Rightarrow>
                    if fullscreenWindow \<noteq> w then
                      (case getMainWorkspace s of
                         None \<Rightarrow> s
                       | Some mainWs \<Rightarrow>
                           if mainWs \<noteq> currentIndex then
                             upd_win (change_workspace s w mainWs) w
                               (\<lambda>r. r\<lparr>kiwi_originalWorkspaceIndex := Some 0\<rparr>)
                           else s)
                    else s))"

definition onWindowCreated :: "manager \<Rightarrow> wref \<Rightarrow> manager" where
  "onWindowCreated s w =
     (let s1 = connectWindowSignals s w
      in s1\<lparr>pendingWindowCreated := insert w (pendingWindowCreated s1)\<rparr>)"

definition windowCreatedIdle :: "manager \<Rightarrow> wref \<Rightarrow> manager" where
  "windowCreatedIdle s w =
     (if w \<notin> pendingWindowCreated s then s
      else
        let s1 = s\<lparr>pendingWindowCreated := pendingWindowCreated s - {w}\<rparr>;
            s2 = redirectWindowFromFullscreenWorkspace s1 w
        in ensureEmptyWorkspaceAtEnd s2)"

subsection \<open>The event loop\<close>

text \<open>
  The host delivers one notification at a time. An event is either a notification
  from the host (a window appears, toggles fullscreen or is closed; the user
  switches workspace) or a pending source of the manager that fires. The host part
  of each event is written out: the host changes its own objects, then runs the
  handler the manager connected. The one exception is a closed window: the handler
  of \<open>unmanaged\<close> reads the workspace of the window (\<^verbatim>\<open>Get the workspace the window was
  on before it's gone\<close>), so it runs while the window still reports its workspace,
  and the host detaches the window afterwards. A window reference is never reused,
  and a source that is not pending does not fire.
\<close>

datatype event =
    WindowCreated wref bool bool bool int
  | FullscreenChanged wref bool
  | WindowUnmanaged wref
  | UserSwitch int
  | IsolationTimer wref
  | RestoreTimer wref
  | CleanupTimer int
  | CheckWorkspacesIdle
  | WindowCreatedIdle wref
  | WindowUnmanagedIdle wref

definition new_window :: "bool \<Rightarrow> bool \<Rightarrow> bool \<Rightarrow> int \<Rightarrow> window" where
  "new_window sk fs prim i =
     \<lparr>skip_taskbar = sk, fullscreen = fs, on_primary_monitor = prim, workspace = Some i,
      kiwi_originalWorkspaceIndex = None, kiwi_isolated = False,
      kiwi_fullscreenWorkspaceIndex = None\<rparr>"

fun step :: "event \<Rightarrow> manager \<Rightarrow> manager" where
  "step (WindowCreated w sk fs prim i) s =
     (if w \<in> set (managed s) \<or> w \<in> destroyed s \<or> \<not> (0 \<le> i \<and> i < n_workspaces s) then s
      else onWindowCreated
             (s\<lparr>managed := managed s @ [w], win := (win s)(w := new_window sk fs prim i)\<rparr>) w)"
| "step (FullscreenChanged w b) s =
     (if w \<notin> set (managed s) \<or> fullscreen (win s w) = b then s
      else
        let s1 = upd_win s w (\<lambda>r. r\<lparr>fullscreen := b\<rparr>)
        in if w \<in> set (windowSignals s1) then onWindowFullscreenChanged s1 w else s1)"
| "step (WindowUnmanaged w) s =
     (if w \<notin> set (managed s) then s
      else
        let s1 = (if w \<in> set (windowSignals s) then onWindowUnmanaged s w else s);
            s2 = upd_win s1 w (\<lambda>r. r\<lparr>workspace := None\<rparr>)
        in s2\<lparr>managed := removeAll w (managed s2), destroyed := insert w (destroyed s2)\<rparr>)"
| "step (UserSwitch i) s =
     (case get_workspace_by_index s i of Some ws \<Rightarrow> activate s ws | None \<Rightarrow> s)"
| "step (IsolationTimer w) s = isolationTimerFired s w"
| "step (RestoreTimer w) s = restoreTimerFired s w"
| "step (CleanupTimer key) s = cleanupTimerFired s key"
| "step CheckWorkspacesIdle s = checkWorkspacesIdle s"
| "step (WindowCreatedIdle w) s = windowCreatedIdle s w"
| "step (WindowUnmanagedIdle w) s = windowUnmanagedIdle s w"

definition run :: "event list \<Rightarrow> manager \<Rightarrow> manager" where
  "run evs s = fold step evs s"

subsection \<open>Example states\<close>

text \<open>
  Three workspaces in dynamic mode: window 1 on the main workspace, window 2 on
  workspace 1, workspace 2 empty; workspace 1 is the active one. Both windows are
  tracked, each with the workspace it was first seen on as its original workspace.
\<close>

definition demo :: manager where
  "demo =
     \<lparr>wm_present = True, n_workspaces = 3, active_index = 1, managed = [1, 2], destroyed = {},
      win = (\<lambda>_. new_window False False True 0)
              (1 := (new_window False False True 0)\<lparr>kiwi_originalWorkspaceIndex := Some 0\<rparr>,
               2 := (new_window False False True 1)\<lparr>kiwi_originalWorkspaceIndex := Some 1\<rparr>),
      mutterSettings = Some \<lparr>dynamic_workspaces = True, workspaces_only_on_primary = False\<rparr>,
      wmPreferences = Some (Returns 4),
      windowSignals = [1, 2], pendingIsolation = {}, pendingRestore = Map.empty,
      fullscreenWorkspaces = [], pendingCleanup = Map.empty, pendingWindowCreated = {},
      pendingWindowUnmanaged = Map.empty, checkWorkspacesId = False,
      isCreatingWorkspace = False\<rparr>"

text \<open>
  Fixed mode with two workspaces configured and present, both windows on the last
  workspace.
\<close>

definition demo_fixed :: manager where
  "demo_fixed =
     demo\<lparr>n_workspaces := 2, wmPreferences := Some (Returns 2),
          mutterSettings := Some \<lparr>dynamic_workspaces = False, workspaces_only_on_primary = False\<rparr>,
          win := (\<lambda>_. new_window False False True 0)
              (1 := (new_window False False True 1)\<lparr>kiwi_originalWorkspaceIndex := Some 1\<rparr>,
               2 := (new_window False False True 1)\<lparr>kiwi_originalWorkspaceIndex := Some 1\<rparr>)\<rparr>"

text \<open>The state \<open>demo\<close> after window 2 has been closed.\<close>

definition demo_closed :: manager where
  "demo_closed =
     demo\<lparr>managed := [1], destroyed := {2}, windowSignals := [1],
          win := (win demo)(2 := (win demo 2)\<lparr>workspace := None\<rparr>)\<rparr>"

text \<open>\<open>demo\<close> with one of its windows fullscreen and the isolation timer of that window pending.\<close>

definition demo_fs :: "wref \<Rightarrow> manager" where
  "demo_fs w = (upd_win demo w (\<lambda>r. r\<lparr>fullscreen := True\<rparr>))\<lparr>pendingIsolation := {w}\<rparr>"

text \<open>
  The ceiling reached: 36 workspaces, both windows on the last workspace 35, window
  1 fullscreen with its isolation timer pending.
\<close>

definition demo_full :: manager where
  "demo_full =
     demo\<lparr>n_workspaces := 36, active_index := 35, pendingIsolation := {1},
          win := (\<lambda>_. new_window False False True 0)
              (1 := (new_window False True True 35)\<lparr>kiwi_originalWorkspaceIndex := Some 35\<rparr>,
               2 := (new_window False False True 35)\<lparr>kiwi_originalWorkspaceIndex := Some 35\<rparr>)\<rparr>"

text \<open>
  The ceiling reached: 36 workspaces, window 1 alone on the main workspace and
  fullscreen with its isolation timer pending, all other workspaces empty.
\<close>

definition demo_full_main :: manager where
  "demo_full_main =
     demo\<lparr>n_workspaces := 36, active_index := 0, pendingIsolation := {1}, managed := [1],
          windowSignals := [1],
          win := (\<lambda>_. new_window False False True 0)
              (1 := (new_window False True True 0)\<lparr>kiwi_originalWorkspaceIndex := Some 0\<rparr>)\<rparr>"

text \<open>
  Five workspaces: window 1 on the main workspace, window 2 on workspace 1, window 4
  on workspace 2; window 3, first seen on workspace 2, is fullscreen and isolated on
  workspace 3, the active one; workspace 4 is empty.
\<close>

definition demo_iso :: manager where
  "demo_iso =
     demo\<lparr>n_workspaces := 5, active_index := 3, managed := [1, 2, 3, 4],
          windowSignals := [1, 2, 3, 4], fullscreenWorkspaces := [(3, 3)],
          win := (\<lambda>_. new_window False False True 0)
              (1 := (new_window False False True 0)\<lparr>kiwi_originalWorkspaceIndex := Some 0\<rparr>,
               2 := (new_window False False True 1)\<lparr>kiwi_originalWorkspaceIndex := Some 1\<rparr>,
               3 := (new_window False True True 3)\<lparr>kiwi_originalWorkspaceIndex := Some 2,
                      kiwi_isolated := True, kiwi_fullscreenWorkspaceIndex := Some 3\<rparr>,
               4 := (new_window False False True 2)\<lparr>kiwi_originalWorkspaceIndex := Some 2\<rparr>)\<rparr>"

subsection \<open>Example runs\<close>

text \<open>
  From \<open>demo\<close>: window 2, alone on the active workspace 1, is closed; the deferred
  handling and the cleanup of workspace 1 fire.
\<close>

definition close_on_active :: "event list" where
  "close_on_active = [WindowUnmanaged 2, WindowUnmanagedIdle 2, CleanupTimer 1]"

text \<open>
  From \<open>demo\<close>: window 1 enters fullscreen on the main workspace and is isolated,
  then it leaves fullscreen and is restored, and the workspace it leaves is cleaned
  up.
\<close>

definition exit_and_restore :: "event list" where
  "exit_and_restore =
     [FullscreenChanged 1 True, IsolationTimer 1, CheckWorkspacesIdle,
      FullscreenChanged 1 False, RestoreTimer 1, CleanupTimer 1, CheckWorkspacesIdle]"

text \<open>
  From \<open>demo_iso\<close>: windows 4 and 2 are closed and the user goes to the main
  workspace, which leaves the cleanups of workspaces 3, 2 and 1 pending, in this
  order; then window 3 leaves fullscreen. The cleanups fire before the restore of
  window 3 does (every delay is 600 ms, so the timers fire in the order they were
  set), each idle workspace check right after the removal that queued it. The
  restore fires last, with the cleanup it schedules.
\<close>

definition stale_restore :: "event list" where
  "stale_restore =
     [WindowUnmanaged 4, WindowUnmanagedIdle 4, WindowUnmanaged 2, WindowUnmanagedIdle 2,
      UserSwitch 0, FullscreenChanged 3 False, CleanupTimer 3, CleanupTimer 2, CheckWorkspacesIdle,
      CleanupTimer 1, CheckWorkspacesIdle, RestoreTimer 3, CleanupTimer 3]"

subsection \<open>Predicates used in the statements and proofs\<close>

text \<open>
  The frame of the workspace check: every field but the workspace count and the
  pending check is as before.
\<close>

definition count_frame :: "manager \<Rightarrow> manager \<Rightarrow> bool" where
  "count_frame s s' \<longleftrightarrow>
     wm_present s' = wm_present s \<and> active_index s' = active_index s \<and>
     managed s' = managed s \<and> destroyed s' = destroyed s \<and> win s' = win s \<and>
     mutterSettings s' = mutterSettings s \<and> wmPreferences s' = wmPreferences s \<and>
     windowSignals s' = windowSignals s \<and> pendingIsolation s' = pendingIsolation s \<and>
     pendingRestore s' = pendingRestore s \<and> fullscreenWorkspaces s' = fullscreenWorkspaces s \<and>
     pendingCleanup s' = pendingCleanup s \<and> pendingWindowCreated s' = pendingWindowCreated s \<and>
     pendingWindowUnmanaged s' = pendingWindowUnmanaged s \<and>
     isCreatingWorkspace s' = isCreatingWorkspace s"

text \<open>The new index of workspace \<open>k\<close> after the removal of workspace \<open>removedIndex\<close>.\<close>

definition shift_down :: "int \<Rightarrow> int \<Rightarrow> int" where
  "shift_down removedIndex k = (if k > removedIndex then k - 1 else k)"

text \<open>
  The frame of the window shifts: they change the windows and the fullscreen map,
  and nothing else.
\<close>

definition move_frame :: "manager \<Rightarrow> manager \<Rightarrow> bool" where
  "move_frame s s' \<longleftrightarrow>
     wm_present s' = wm_present s \<and> n_workspaces s' = n_workspaces s \<and>
     active_index s' = active_index s \<and> managed s' = managed s \<and>
     destroyed s' = destroyed s \<and>
     mutterSettings s' = mutterSettings s \<and> wmPreferences s' = wmPreferences s \<and>
     windowSignals s' = windowSignals s \<and> pendingIsolation s' = pendingIsolation s \<and>
     pendingRestore s' = pendingRestore s \<and>
     pendingCleanup s' = pendingCleanup s \<and> pendingWindowCreated s' = pendingWindowCreated s \<and>
     pendingWindowUnmanaged s' = pendingWindowUnmanaged s \<and>
     checkWorkspacesId s' = checkWorkspacesId s \<and>
     isCreatingWorkspace s' = isCreatingWorkspace s"

text \<open>No source of the manager is pending.\<close>

definition no_pending :: "manager \<Rightarrow> bool" where
  "no_pending s \<longleftrightarrow>
     pendingIsolation s = {} \<and> pendingRestore s = Map.empty \<and> pendingCleanup s = Map.empty \<and>
     pendingWindowCreated s = {} \<and> pendingWindowUnmanaged s = Map.empty \<and>
     \<not> checkWorkspacesId s"

text \<open>Host: every window is on a workspace that exists.\<close>

definition windows_in_range :: "manager \<Rightarrow> bool" where
  "windows_in_range s \<longleftrightarrow>
     list_all (\<lambda>w. case workspace (win s w) of Some i \<Rightarrow> i < n_workspaces s | None \<Rightarrow> True)
       (managed s)"

text \<open>
  Isolating the window needs a workspace that does not exist yet: either the target
  index \<open>currentIndex + 1\<close> is beyond the last workspace, or the target workspace
  is occupied and no workspace follows the last occupied one to shift into.
\<close>

definition needs_new_workspace :: "manager \<Rightarrow> wref \<Rightarrow> bool" where
  "needs_new_workspace s w =
     (let desiredTargetIndex = currentIndex_of s w + 1;
          lastOccupiedIndex = findLastOccupiedWorkspaceIndex s
      in desiredTargetIndex \<ge> n_workspaces s
         \<or> (length (relevant_windows s desiredTargetIndex) > 0
            \<and> \<not> (lastOccupiedIndex \<ge> 0 \<and> lastOccupiedIndex + 1 < n_workspaces s)))"

text \<open>
  Host: there is at least one workspace and no window has a negative workspace
  index. Manager: no key of the fullscreen map is 0 (or less).
\<close>

definition host_sane :: "manager \<Rightarrow> bool" where
  "host_sane s \<longleftrightarrow>
     1 \<le> n_workspaces s \<and> (\<forall>w c. workspace (win s w) = Some c \<longrightarrow> 0 \<le> c)"

definition no_main_target :: "manager \<Rightarrow> bool" where
  "no_main_target s \<longleftrightarrow> list_all (\<lambda>k. 0 < k) (map fst (fullscreenWorkspaces s))"

definition targets_ok :: "manager \<Rightarrow> bool" where
  "targets_ok s \<longleftrightarrow> host_sane s \<and> no_main_target s"

text \<open>
  The number of workspaces after the highest-index occupied workspace. None of them
  has a relevant window (lemma \<open>findLast_after\<close>), so this is the number of trailing
  empty workspaces.
\<close>

definition trailing_empty :: "manager \<Rightarrow> int" where
  "trailing_empty s = n_workspaces s - 1 - findLastOccupiedWorkspaceIndex s"

text \<open>
  Below the ceiling, at least one workspace follows the last occupied one, and the
  last workspace has no relevant window.
\<close>

definition trailing_ok :: "manager \<Rightarrow> bool" where
  "trailing_ok s \<longleftrightarrow>
     (n_workspaces s < MAX_WORKSPACES \<longrightarrow>
        1 \<le> trailing_empty s \<and> relevant_windows s (n_workspaces s - 1) = [])"

text \<open>
  Between two events: the workspace manager is there, no workspace is being
  created, and every window is on a workspace that exists.
\<close>

definition placed :: "manager \<Rightarrow> bool" where
  "placed s \<longleftrightarrow> wm_present s \<and> \<not> isCreatingWorkspace s \<and> windows_in_range s"

text \<open>
  The workspace a restore moves its window to, as \<open>_executeWindowRestore\<close> computes it
  from the captured original index.
\<close>

definition restoreTarget :: "manager \<Rightarrow> int option \<Rightarrow> int" where
  "restoreTarget s originalIndex =
     (case originalIndex of
        Some orig \<Rightarrow> if orig \<ge> 0 then min orig (max 0 (n_workspaces s - 1)) else 0
      | None \<Rightarrow> 0)"

text \<open>No restore that fires during the run targets the last workspace.\<close>

fun restores_spare_last :: "event list \<Rightarrow> manager \<Rightarrow> bool" where
  "restores_spare_last [] s = True"
| "restores_spare_last (e # evs) s =
     ((case e of
         RestoreTimer w \<Rightarrow>
           (case pendingRestore s w of
              Some (originalIndex, fullscreenWsIndex) \<Rightarrow>
                restoreTarget s originalIndex < n_workspaces s - 1
            | None \<Rightarrow> True)
       | _ \<Rightarrow> True)
      \<and> restores_spare_last evs (step e s))"

text \<open>
  The frame of the handlers that run no trailing-workspace check: the workspaces and
  the pending new windows are as before, no window appears, and no window arrives
  on the last workspace.
\<close>

definition keeps_last :: "manager \<Rightarrow> manager \<Rightarrow> bool" where
  "keeps_last s s' \<longleftrightarrow>
     wm_present s' = wm_present s \<and> n_workspaces s' = n_workspaces s
     \<and> mutterSettings s' = mutterSettings s
     \<and> pendingWindowCreated s' = pendingWindowCreated s
     \<and> set (managed s') \<subseteq> set (managed s)
     \<and> (\<forall>w. skip_taskbar (win s' w) = skip_taskbar (win s w)
          \<and> on_primary_monitor (win s' w) = on_primary_monitor (win s w)
          \<and> (workspace (win s' w) = workspace (win s w)
               \<or> workspace (win s' w) \<noteq> Some (n_workspaces s - 1)))"

section \<open>Basic facts about the operations\<close>

lemma queueCheck_eq [simp]: "queueCheckWorkspaces s = s\<lparr>checkWorkspacesId := True\<rparr>"
  by (simp add: queueCheckWorkspaces_def)

lemma append_guarded_eq [simp]:
  "append_guarded s = s\<lparr>n_workspaces := n_workspaces s + 1, checkWorkspacesId := True, isCreatingWorkspace := False\<rparr>"
  by (simp add: append_guarded_def append_new_workspace_def Let_def)

lemma canAppend_bypass:
  "canAppendWorkspace True s =
     (wm_present s \<and> n_workspaces s < MAX_WORKSPACES \<and> \<not> isCreatingWorkspace s)"
  by (auto simp: canAppendWorkspace_def)

lemma cancelCleanup_eq [simp]:
  "cancelWorkspaceCleanup s i = s\<lparr>pendingCleanup := (pendingCleanup s)(i := None)\<rparr>"
  by (cases s) (auto simp: cancelWorkspaceCleanup_def fun_upd_idem split: option.split)

lemma scheduleCleanup_eq [simp]:
  "scheduleWorkspaceCleanup s i = s\<lparr>pendingCleanup := (pendingCleanup s)(i \<mapsto> CleanupOne i)\<rparr>"
  by (simp add: scheduleWorkspaceCleanup_def)

lemma scheduleAll_eq [simp]:
  "scheduleCleanupAllEmptyWorkspaces s = s\<lparr>pendingCleanup := (pendingCleanup s)(CLEANUP_ALL_ID \<mapsto> CleanupAll)\<rparr>"
  by (simp add: scheduleCleanupAllEmptyWorkspaces_def)

lemma count_frameD:
  assumes "count_frame s s'"
  shows "wm_present s' = wm_present s" "active_index s' = active_index s"
    "managed s' = managed s" "destroyed s' = destroyed s" "win s' = win s"
    "mutterSettings s' = mutterSettings s" "wmPreferences s' = wmPreferences s"
    "windowSignals s' = windowSignals s" "pendingIsolation s' = pendingIsolation s"
    "pendingRestore s' = pendingRestore s" "fullscreenWorkspaces s' = fullscreenWorkspaces s"
    "pendingCleanup s' = pendingCleanup s" "pendingWindowCreated s' = pendingWindowCreated s"
    "pendingWindowUnmanaged s' = pendingWindowUnmanaged s"
    "isCreatingWorkspace s' = isCreatingWorkspace s"
  using assms by (simp_all add: count_frame_def)

lemma ensure_min_loop_frame:
  "count_frame s (ensure_min_loop s) \<and> n_workspaces s \<le> n_workspaces (ensure_min_loop s)
   \<and> (wm_present s \<and> \<not> isCreatingWorkspace s \<longrightarrow> MIN_WORKSPACES \<le> n_workspaces (ensure_min_loop s))"
proof (induction s rule: ensure_min_loop.induct)
  case (1 s)
  show ?case
  proof (cases "n_workspaces s < MIN_WORKSPACES \<and> canAppendWorkspace True s")
    case True
    then have nc: "\<not> isCreatingWorkspace s" and wm: "wm_present s"
      by (auto simp: canAppend_bypass)
    have eq: "ensure_min_loop s = ensure_min_loop (append_guarded s)"
      using True by (subst ensure_min_loop.simps) simp
    from 1[OF True] nc wm show ?thesis
      unfolding eq by (simp add: count_frame_def)
  next
    case False
    then have "ensure_min_loop s = s" by (subst ensure_min_loop.simps) auto
    then show ?thesis using False
      by (auto simp: count_frame_def canAppend_bypass MIN_WORKSPACES_def MAX_WORKSPACES_def)
  qed
qed

lemma ensure_min_loop_id: "MIN_WORKSPACES \<le> n_workspaces s \<Longrightarrow> ensure_min_loop s = s"
  by (subst ensure_min_loop.simps) simp

lemmas ensure_min_loop_fields [simp] = count_frameD[OF conjunct1[OF ensure_min_loop_frame]]

lemma ensure_frame: "count_frame s (ensureEmptyWorkspaceAtEnd s)"
  by (simp add: ensureEmptyWorkspaceAtEnd_def Let_def count_frame_def canAppend_bypass)

lemmas ensure_fields [simp] = count_frameD[OF ensure_frame]

lemma ensure_count_mono: "n_workspaces s \<le> n_workspaces (ensureEmptyWorkspaceAtEnd s)"
  using ensure_min_loop_frame[of s]
  by (simp add: ensureEmptyWorkspaceAtEnd_def Let_def)

lemma ensure_count_min:
  "wm_present s \<Longrightarrow> \<not> isCreatingWorkspace s \<Longrightarrow> MIN_WORKSPACES \<le> n_workspaces (ensureEmptyWorkspaceAtEnd s)"
  using ensure_min_loop_frame[of s]
  by (simp add: ensureEmptyWorkspaceAtEnd_def Let_def)

lemma ensure_at_max: "MAX_WORKSPACES \<le> n_workspaces s \<Longrightarrow> ensureEmptyWorkspaceAtEnd s = s"
  by (simp add: ensureEmptyWorkspaceAtEnd_def Let_def canAppend_bypass ensure_min_loop_id
       MIN_WORKSPACES_def MAX_WORKSPACES_def)

lemma onWorkspaceSwitched_fields [simp]:
  "wm_present (onWorkspaceSwitched s f t) = wm_present s"
  "n_workspaces (onWorkspaceSwitched s f t) = n_workspaces s"
  "active_index (onWorkspaceSwitched s f t) = active_index s"
  "managed (onWorkspaceSwitched s f t) = managed s"
  "destroyed (onWorkspaceSwitched s f t) = destroyed s"
  "win (onWorkspaceSwitched s f t) = win s"
  "mutterSettings (onWorkspaceSwitched s f t) = mutterSettings s"
  "wmPreferences (onWorkspaceSwitched s f t) = wmPreferences s"
  "windowSignals (onWorkspaceSwitched s f t) = windowSignals s"
  "pendingIsolation (onWorkspaceSwitched s f t) = pendingIsolation s"
  "pendingRestore (onWorkspaceSwitched s f t) = pendingRestore s"
  "fullscreenWorkspaces (onWorkspaceSwitched s f t) = fullscreenWorkspaces s"
  "pendingWindowCreated (onWorkspaceSwitched s f t) = pendingWindowCreated s"
  "pendingWindowUnmanaged (onWorkspaceSwitched s f t) = pendingWindowUnmanaged s"
  "checkWorkspacesId (onWorkspaceSwitched s f t) = checkWorkspacesId s"
  "isCreatingWorkspace (onWorkspaceSwitched s f t) = isCreatingWorkspace s"
  by (simp_all add: onWorkspaceSwitched_def Let_def)

lemma activate_fields [simp]:
  "wm_present (activate s i) = wm_present s"
  "n_workspaces (activate s i) = n_workspaces s"
  "active_index (activate s i) = i"
  "managed (activate s i) = managed s"
  "destroyed (activate s i) = destroyed s"
  "win (activate s i) = win s"
  "mutterSettings (activate s i) = mutterSettings s"
  "wmPreferences (activate s i) = wmPreferences s"
  "windowSignals (activate s i) = windowSignals s"
  "pendingIsolation (activate s i) = pendingIsolation s"
  "pendingRestore (activate s i) = pendingRestore s"
  "fullscreenWorkspaces (activate s i) = fullscreenWorkspaces s"
  "pendingWindowCreated (activate s i) = pendingWindowCreated s"
  "pendingWindowUnmanaged (activate s i) = pendingWindowUnmanaged s"
  "checkWorkspacesId (activate s i) = checkWorkspacesId s"
  "isCreatingWorkspace (activate s i) = isCreatingWorkspace s"
  by (simp_all add: activate_def)

section \<open>Restoring a window to its original workspace\<close>

text \<open>
  Claim C1, as amended. When the delayed restore fires with the original index
  recorded at the exit from fullscreen, the window is moved to that index if the
  workspace still exists; if the index is beyond the last workspace the window is
  moved to the last existing workspace (the index is clamped to
  \<open>n_workspaces - 1\<close>), not to the main workspace. The main workspace is the target
  only when no original index is recorded or it is negative.
\<close>

theorem C1_restore_clamps:
  assumes "wm_present s" and "1 \<le> n_workspaces s"
  shows "workspace (win (executeWindowRestore s w originalIndex fullscreenWsIndex) w) =
           Some (case originalIndex of
                   None \<Rightarrow> 0
                 | Some orig \<Rightarrow> if orig < 0 then 0
                               else if orig < n_workspaces s then orig
                               else n_workspaces s - 1)"
  using assms
  by (auto simp: executeWindowRestore_def Let_def get_workspace_by_index_def upd_win_def
        change_workspace_def split: option.splits)

theorem C1_witness:
  "workspace (win (executeWindowRestore demo 2 (Some 0) (Some 1)) 2) = Some 0"
  using C1_restore_clamps[of demo 2 "Some 0" "Some 1"] by (simp add: demo_def)

text \<open>
  Claim C1 as stated fails: with three workspaces and a recorded original index 5,
  the window goes to workspace 2, not to the main workspace.
\<close>

theorem C1_counterexample:
  "n_workspaces demo \<le> 5 \<and>
   workspace (win (executeWindowRestore demo 2 (Some 5) (Some 1)) 2) = Some 2"
  by (simp add: demo_def executeWindowRestore_def Let_def get_workspace_by_index_def upd_win_def
        change_workspace_def)

section \<open>Closing a tracked window\<close>

lemma cancelPendingIsolation_eq [simp]:
  "cancelPendingIsolation s w = s\<lparr>pendingIsolation := pendingIsolation s - {w}\<rparr>"
  by (cases s) (auto simp: cancelPendingIsolation_def)

lemma cancelPendingRestore_eq [simp]:
  "cancelPendingRestore s w = s\<lparr>pendingRestore := (pendingRestore s)(w := None)\<rparr>"
  by (cases s) (auto simp: cancelPendingRestore_def fun_upd_idem split: option.split)

lemma disconnectWindowSignals_eq [simp]:
  "disconnectWindowSignals s w = s\<lparr>windowSignals := removeAll w (windowSignals s)\<rparr>"
  by (cases s) (auto simp: disconnectWindowSignals_def)

lemma onWindowUnmanaged_eq:
  "onWindowUnmanaged s w =
     s\<lparr>pendingIsolation := pendingIsolation s - {w},
       pendingRestore := (pendingRestore s)(w := None),
       windowSignals := removeAll w (windowSignals s),
       pendingWindowUnmanaged := (pendingWindowUnmanaged s)
          (w \<mapsto> (kiwi_originalWorkspaceIndex (win s w), kiwi_fullscreenWorkspaceIndex (win s w),
                 workspace (win s w)))\<rparr>"
  by (simp add: onWindowUnmanaged_def Let_def)

lemma unmanaged_then_idle:
  assumes "w \<in> set (managed s)" and "w \<in> set (windowSignals s)"
  shows "run [WindowUnmanaged w, WindowUnmanagedIdle w] s =
           windowUnmanagedDeferred
             (s\<lparr>pendingIsolation := pendingIsolation s - {w},
                pendingRestore := (pendingRestore s)(w := None),
                windowSignals := removeAll w (windowSignals s),
                win := (win s)(w := win s w\<lparr>workspace := None\<rparr>),
                managed := removeAll w (managed s),
                destroyed := insert w (destroyed s),
                pendingWindowUnmanaged := (pendingWindowUnmanaged s)(w := None)\<rparr>)
             (kiwi_originalWorkspaceIndex (win s w))
             (kiwi_fullscreenWorkspaceIndex (win s w)) (workspace (win s w))"
  using assms
  by (simp add: run_def Let_def onWindowUnmanaged_eq windowUnmanagedIdle_def upd_win_def)

lemma deferred_activates:
  assumes "wm_present s" and "0 \<le> orig" and "orig < n_workspaces s" and "active_index s \<noteq> orig"
  shows "active_index (windowUnmanagedDeferred s (Some orig) fsIdx wsIdx) = orig"
  using assms
  by (simp add: windowUnmanagedDeferred_def Let_def get_workspace_by_index_def split: option.split)

lemma deferred_untracks:
  assumes "wm_present s"
  shows "map_of (fullscreenWorkspaces (windowUnmanagedDeferred s origIdx (Some f) wsIdx)) f = None"
  using assms
  by (simp add: windowUnmanagedDeferred_def Let_def AList.delete_conv' split: option.split)

lemma deferred_schedules:
  assumes "wm_present s" and "(case fsIdx of Some f \<Rightarrow> Some f | None \<Rightarrow> wsIdx) = Some c" and "0 < c"
  shows "pendingCleanup (windowUnmanagedDeferred s origIdx fsIdx wsIdx) c = Some (CleanupOne c)"
  using assms
  by (simp add: windowUnmanagedDeferred_def Let_def split: option.split)

text \<open>
  Claim C10, as amended. When a tracked window is closed and its recorded original
  workspace index still refers to an existing workspace that is not the active one,
  the deferred handling activates that workspace. It also deletes the entry of the
  window's isolation index from the fullscreen map, and it schedules the cleanup of
  the workspace the window occupied (its isolation index if it has one, else the
  workspace it was on when closed) provided that index is greater than 0: the main
  workspace is never scheduled for cleanup. The workspace the window was on is the
  one it still reports when the handler of \<open>unmanaged\<close> runs.
\<close>

theorem C10_unmanaged_activates_original:
  assumes "wm_present s" and "w \<in> set (managed s)" and "w \<in> set (windowSignals s)"
    and "kiwi_originalWorkspaceIndex (win s w) = Some orig"
    and "0 \<le> orig" and "orig < n_workspaces s" and "active_index s \<noteq> orig"
  shows "active_index (run [WindowUnmanaged w, WindowUnmanagedIdle w] s) = orig
       \<and> (\<forall>f. kiwi_fullscreenWorkspaceIndex (win s w) = Some f \<longrightarrow>
             map_of (fullscreenWorkspaces (run [WindowUnmanaged w, WindowUnmanagedIdle w] s)) f = None)
       \<and> (\<forall>c. (case kiwi_fullscreenWorkspaceIndex (win s w) of
                   Some f \<Rightarrow> Some f | None \<Rightarrow> workspace (win s w)) = Some c \<and> 0 < c \<longrightarrow>
             pendingCleanup (run [WindowUnmanaged w, WindowUnmanagedIdle w] s) c = Some (CleanupOne c))"
proof -
  let ?s1 = "s\<lparr>pendingIsolation := pendingIsolation s - {w},
                pendingRestore := (pendingRestore s)(w := None),
                windowSignals := removeAll w (windowSignals s),
                win := (win s)(w := win s w\<lparr>workspace := None\<rparr>),
                managed := removeAll w (managed s),
                destroyed := insert w (destroyed s),
                pendingWindowUnmanaged := (pendingWindowUnmanaged s)(w := None)\<rparr>"
  have r: "run [WindowUnmanaged w, WindowUnmanagedIdle w] s =
          windowUnmanagedDeferred ?s1 (Some orig) (kiwi_fullscreenWorkspaceIndex (win s w)) (workspace (win s w))"
    using unmanaged_then_idle[OF assms(2,3)] assms(4) by simp
  have f: "wm_present ?s1" using assms(1) by simp
  have a: "active_index (windowUnmanagedDeferred ?s1 (Some orig) (kiwi_fullscreenWorkspaceIndex (win s w)) (workspace (win s w))) = orig"
    using assms(5,6,7) f by (intro deferred_activates) simp_all
  show ?thesis
    unfolding r
  proof (intro conjI allI impI)
    show "active_index (windowUnmanagedDeferred ?s1 (Some orig)
            (kiwi_fullscreenWorkspaceIndex (win s w)) (workspace (win s w))) = orig"
      by (rule a)
  next
    fix f assume "kiwi_fullscreenWorkspaceIndex (win s w) = Some f"
    then show "map_of (fullscreenWorkspaces (windowUnmanagedDeferred ?s1 (Some orig)
                 (kiwi_fullscreenWorkspaceIndex (win s w)) (workspace (win s w)))) f = None"
      using deferred_untracks[OF f, of "Some orig" f "workspace (win s w)"] by simp
  next
    fix c
    assume "(case kiwi_fullscreenWorkspaceIndex (win s w) of
               Some f \<Rightarrow> Some f | None \<Rightarrow> workspace (win s w)) = Some c \<and> 0 < c"
    then show "pendingCleanup (windowUnmanagedDeferred ?s1 (Some orig)
                 (kiwi_fullscreenWorkspaceIndex (win s w)) (workspace (win s w))) c
               = Some (CleanupOne c)"
      by (intro deferred_schedules[OF f]) simp_all
  qed
qed

lemma demo_facts:
  "wm_present demo" "n_workspaces demo = 3" "active_index demo = 1" "managed demo = [1, 2]"
  "windowSignals demo = [1, 2]" "\<not> isCreatingWorkspace demo"
  "fullscreenWorkspaces demo = []" "pendingCleanup demo = Map.empty"
  "win demo 1 = (new_window False False True 0)\<lparr>kiwi_originalWorkspaceIndex := Some 0\<rparr>"
  "win demo 2 = (new_window False False True 1)\<lparr>kiwi_originalWorkspaceIndex := Some 1\<rparr>"
  by (simp_all add: demo_def)

theorem C10_witness:
  "active_index (run [WindowUnmanaged 2, WindowUnmanagedIdle 2] (demo\<lparr>active_index := 0\<rparr>)) = 1
   \<and> pendingCleanup (run [WindowUnmanaged 2, WindowUnmanagedIdle 2] (demo\<lparr>active_index := 0\<rparr>)) 1
       = Some (CleanupOne 1)"
  using C10_unmanaged_activates_original[of "demo\<lparr>active_index := 0\<rparr>" 2 1]
  by (simp add: demo_facts new_window_def)

text \<open>
  Claim C10 as stated fails for a window on the main workspace: window 1 of \<open>demo\<close>
  is closed while workspace 1 is active; the main workspace is activated, and no
  cleanup is scheduled for the workspace the window occupied.
\<close>

theorem C10_counterexample:
  "kiwi_originalWorkspaceIndex (win demo 1) = Some 0 \<and> workspace (win demo 1) = Some 0
   \<and> active_index demo = 1
   \<and> active_index (run [WindowUnmanaged 1, WindowUnmanagedIdle 1] demo) = 0
   \<and> pendingCleanup (run [WindowUnmanaged 1, WindowUnmanagedIdle 1] demo) 0 = None"
  by (simp add: unmanaged_then_idle demo_facts new_window_def windowUnmanagedDeferred_def Let_def
        get_workspace_by_index_def activate_def onWorkspaceSwitched_def isDynamicWorkspaceMode_def
        demo_def)

section \<open>Shifting tracked indices after a removal\<close>

text \<open>
  \<open>_shiftFullscreenIndicesAfterRemove\<close> rebuilds the fullscreen map entry by entry and
  then walks the tracked windows. The lemmas follow the two loops: what the first
  leaves in the new map, that it keeps the original indices, and what the second
  does to them.
\<close>

lemma shift_entry_fst:
  "map_of (fst (shift_entry r (idx, w) (m, s))) k =
     (if (r < idx \<and> k = idx - 1) \<or> (idx < r \<and> k = idx) then Some w else map_of m k)"
  by (simp add: shift_entry_def Let_def AList.update_conv')

lemma shift_entries_map:
  "distinct (map fst es) \<Longrightarrow>
   map_of (fst (fold (shift_entry r) es (m, s))) k =
     (case map_of es (if k < r then k else k + 1) of Some w \<Rightarrow> Some w | None \<Rightarrow> map_of m k)"
proof (induction es arbitrary: m s)
  case Nil
  then show ?case by simp
next
  case (Cons e es)
  obtain idx w where e: "e = (idx, w)" by (cases e)
  obtain m' s' where se: "shift_entry r (idx, w) (m, s) = (m', s')"
    by (cases "shift_entry r (idx, w) (m, s)")
  from Cons.prems have d: "distinct (map fst es)" and ni: "map_of es idx = None"
    by (auto simp: e map_of_eq_None_iff)
  have m': "map_of m' k =
     (if (r < idx \<and> k = idx - 1) \<or> (idx < r \<and> k = idx) then Some w else map_of m k)"
    using shift_entry_fst[of r idx w m s k] by (simp add: se)
  have "map_of (fst (fold (shift_entry r) (e # es) (m, s))) k =
        (case map_of es (if k < r then k else k + 1) of Some w \<Rightarrow> Some w | None \<Rightarrow> map_of m' k)"
    using Cons.IH[OF d, of m' s'] by (simp add: e se)
  also have "\<dots> = (case map_of (e # es) (if k < r then k else k + 1) of
                      Some w \<Rightarrow> Some w | None \<Rightarrow> map_of m k)"
    using ni by (auto simp: e m' split: option.splits)
  finally show ?case .
qed

lemma shift_entry_snd:
  "windowSignals (snd (shift_entry r e (m, s))) = windowSignals s"
  "n_workspaces (snd (shift_entry r e (m, s))) = n_workspaces s"
  "kiwi_originalWorkspaceIndex (win (snd (shift_entry r e (m, s))) x)
     = kiwi_originalWorkspaceIndex (win s x)"
  by (cases e; simp add: shift_entry_def Let_def upd_win_def)+

lemma shift_entries_state:
  "windowSignals (snd (fold (shift_entry r) es (m, s))) = windowSignals s
   \<and> n_workspaces (snd (fold (shift_entry r) es (m, s))) = n_workspaces s
   \<and> (\<forall>x. kiwi_originalWorkspaceIndex (win (snd (fold (shift_entry r) es (m, s))) x)
          = kiwi_originalWorkspaceIndex (win s x))"
proof (induction es arbitrary: m s)
  case Nil
  then show ?case by simp
next
  case (Cons e es)
  obtain m' s' where se: "shift_entry r e (m, s) = (m', s')"
    by (cases "shift_entry r e (m, s)")
  show ?case
    using Cons.IH[of m' s'] shift_entry_snd[of r e m s] by (simp add: se)
qed

lemma shift_original_fields:
  "fullscreenWorkspaces (shift_original r w s) = fullscreenWorkspaces s"
  "kiwi_originalWorkspaceIndex (win (shift_original r w s) x) =
     (if x = w then map_option (shift_down r) (kiwi_originalWorkspaceIndex (win s x))
      else kiwi_originalWorkspaceIndex (win s x))"
  by (simp_all add: shift_original_def shift_down_def upd_win_def split: option.splits)

lemma shift_originals:
  "distinct ws \<Longrightarrow>
   fullscreenWorkspaces (fold (shift_original r) ws s) = fullscreenWorkspaces s
   \<and> (\<forall>x. kiwi_originalWorkspaceIndex (win (fold (shift_original r) ws s) x) =
          (if x \<in> set ws then map_option (shift_down r) (kiwi_originalWorkspaceIndex (win s x))
           else kiwi_originalWorkspaceIndex (win s x)))"
proof (induction ws arbitrary: s)
  case Nil
  then show ?case by simp
next
  case (Cons w ws)
  then have d: "distinct ws" and nw: "w \<notin> set ws" by simp_all
  show ?case
    using Cons.IH[OF d, of "shift_original r w s"] nw
    by (auto simp: shift_original_fields)
qed

lemma shift_after_remove_spec:
  assumes "distinct (map fst (fullscreenWorkspaces s))" and "distinct (windowSignals s)"
  shows "(\<forall>k. map_of (fullscreenWorkspaces (shiftFullscreenIndicesAfterRemove s removedIndex)) k =
              (if k < removedIndex then map_of (fullscreenWorkspaces s) k
               else map_of (fullscreenWorkspaces s) (k + 1)))
       \<and> (\<forall>w \<in> set (windowSignals s).
             kiwi_originalWorkspaceIndex (win (shiftFullscreenIndicesAfterRemove s removedIndex) w) =
               map_option (\<lambda>orig. if orig > removedIndex then orig - 1 else orig)
                 (kiwi_originalWorkspaceIndex (win s w)))"
proof -
  obtain newMap s1 where f: "fold (shift_entry removedIndex) (fullscreenWorkspaces s) ([], s) = (newMap, s1)"
    by (cases "fold (shift_entry removedIndex) (fullscreenWorkspaces s) ([], s)")
  have m: "map_of newMap k = (if k < removedIndex then map_of (fullscreenWorkspaces s) k
               else map_of (fullscreenWorkspaces s) (k + 1))" for k
    using shift_entries_map[OF assms(1), of removedIndex "[]" s k] f
    by (simp split: option.splits)
  have st: "windowSignals s1 = windowSignals s"
    "\<And>x. kiwi_originalWorkspaceIndex (win s1 x) = kiwi_originalWorkspaceIndex (win s x)"
    using shift_entries_state[of removedIndex "fullscreenWorkspaces s" "[]" s] f by simp_all
  have r: "shiftFullscreenIndicesAfterRemove s removedIndex =
           fold (shift_original removedIndex) (windowSignals s)
             (s1\<lparr>fullscreenWorkspaces := newMap\<rparr>)"
    by (simp add: shiftFullscreenIndicesAfterRemove_def f Let_def st)
  show ?thesis
    unfolding r
    using shift_originals[OF assms(2), of removedIndex "s1\<lparr>fullscreenWorkspaces := newMap\<rparr>"]
    by (simp add: m st shift_down_def[abs_def])
qed

lemma remove_workspace_fields:
  "fullscreenWorkspaces (remove_workspace s i) = fullscreenWorkspaces s"
  "windowSignals (remove_workspace s i) = windowSignals s"
  "kiwi_originalWorkspaceIndex (win (remove_workspace s i) w) = kiwi_originalWorkspaceIndex (win s w)"
  "wm_present (remove_workspace s i) = wm_present s"
  "isCreatingWorkspace (remove_workspace s i) = isCreatingWorkspace s"
  "n_workspaces (remove_workspace s i) =
     (if n_workspaces s \<le> 1 \<or> i < 0 \<or> i \<ge> n_workspaces s then n_workspaces s
      else n_workspaces s - 1)"
  by (simp_all add: remove_workspace_def Let_def)



section \<open>Redirecting a new window away from a fullscreen workspace\<close>

text \<open>
  The host announces a new window; \<open>_onWindowCreated\<close> connects its signals, which
  records the workspace it is on as its original workspace, and queues the idle
  callback.
\<close>

lemma created_state:
  assumes "w \<notin> set (managed s)" and "w \<notin> destroyed s" and "w \<notin> set (windowSignals s)"
    and "0 \<le> i" and "i < n_workspaces s"
  shows "w \<in> pendingWindowCreated (step (WindowCreated w sk fs prim i) s)"
    "skip_taskbar (win (step (WindowCreated w sk fs prim i) s) w) = sk"
    "fullscreen (win (step (WindowCreated w sk fs prim i) s) w) = fs"
    "workspace (win (step (WindowCreated w sk fs prim i) s) w) = Some i"
    "\<not> sk \<Longrightarrow> kiwi_originalWorkspaceIndex (win (step (WindowCreated w sk fs prim i) s) w) = Some i"
    "x \<noteq> w \<Longrightarrow> win (step (WindowCreated w sk fs prim i) s) x = win s x"
    "fullscreenWorkspaces (step (WindowCreated w sk fs prim i) s) = fullscreenWorkspaces s"
    "wm_present (step (WindowCreated w sk fs prim i) s) = wm_present s"
    "n_workspaces (step (WindowCreated w sk fs prim i) s) = n_workspaces s"
  using assms
  by (simp_all add: onWindowCreated_def connectWindowSignals_def captureOriginalWorkspace_def
        onWindowFullscreenChanged_def scheduleIsolation_def
        Let_def new_window_def upd_win_def)

text \<open>The idle callback: the redirect, then the trailing-workspace check.\<close>

lemma createdIdle_win:
  assumes "w \<in> pendingWindowCreated s" and "wm_present s"
    and "workspace (win s w) = Some i" and "0 \<le> i" and "i < n_workspaces s"
  shows "win (windowCreatedIdle s w) =
     (if \<not> fullscreen (win s w) \<and> \<not> skip_taskbar (win s w) \<and> i \<noteq> 0
         \<and> (\<exists>f. map_of (fullscreenWorkspaces s) i = Some f \<and> f \<noteq> w)
      then (win s)(w := (win s w)\<lparr>workspace := Some 0, kiwi_originalWorkspaceIndex := Some 0\<rparr>)
      else win s)"
  using assms
  by (auto simp: windowCreatedIdle_def Let_def redirectWindowFromFullscreenWorkspace_def
        getFullscreenWindowOnWorkspace_def getMainWorkspace_def get_workspace_by_index_def
        change_workspace_def upd_win_def split: option.splits)

text \<open>
  Claim C8. A window \<open>w\<close> is created on the existing workspace \<open>i\<close> (the host
  announces it, \<open>_onWindowCreated\<close> runs, then the idle callback it queued fires).
  If the window is neither fullscreen nor skip-taskbar and the fullscreen map has
  an entry for workspace \<open>i\<close> that is a different window, the window ends on the main
  workspace (index 0) and its recorded original workspace index is 0; otherwise it
  is left on workspace \<open>i\<close>. No other window is touched. The window is new: the
  host has not managed it before and no signal of it is connected.
\<close>

theorem C8_redirect_on_create:
  assumes "wm_present s" and "w \<notin> set (managed s)" and "w \<notin> destroyed s"
    and "w \<notin> set (windowSignals s)" and "0 \<le> i" and "i < n_workspaces s"
  shows "workspace (win (run [WindowCreated w sk fs prim i, WindowCreatedIdle w] s) w) =
           (if \<not> fs \<and> \<not> sk \<and> (\<exists>f. getFullscreenWindowOnWorkspace s i = Some f \<and> f \<noteq> w)
            then Some 0 else Some i)
       \<and> (\<not> fs \<and> \<not> sk \<and> (\<exists>f. getFullscreenWindowOnWorkspace s i = Some f \<and> f \<noteq> w) \<longrightarrow>
            kiwi_originalWorkspaceIndex
              (win (run [WindowCreated w sk fs prim i, WindowCreatedIdle w] s) w) = Some 0)
       \<and> (\<forall>x. x \<noteq> w \<longrightarrow>
            win (run [WindowCreated w sk fs prim i, WindowCreatedIdle w] s) x = win s x)"
proof -
  let ?s1 = "step (WindowCreated w sk fs prim i) s"
  note c = created_state[OF assms(2-6), where sk=sk and fs=fs and prim=prim]
  have r: "run [WindowCreated w sk fs prim i, WindowCreatedIdle w] s = windowCreatedIdle ?s1 w"
    by (simp add: run_def)
  have i: "win (windowCreatedIdle ?s1 w) =
     (if \<not> fs \<and> \<not> sk \<and> i \<noteq> 0
         \<and> (\<exists>f. map_of (fullscreenWorkspaces s) i = Some f \<and> f \<noteq> w)
      then (win ?s1)(w := (win ?s1 w)\<lparr>workspace := Some 0, kiwi_originalWorkspaceIndex := Some 0\<rparr>)
      else win ?s1)"
    using createdIdle_win[of w ?s1 i] c(1-4,7-9) assms(1,5,6) by simp
  show ?thesis
    unfolding r i using c(4,5,6)
    by (auto simp: getFullscreenWindowOnWorkspace_def)
qed

lemma demo_fresh:
  "3 \<notin> set (managed demo)" "3 \<notin> destroyed demo" "3 \<notin> set (windowSignals demo)"
  by (simp_all add: demo_def)

text \<open>
  In \<open>demo\<close> with window 2 isolated on workspace 1, a normal window created on
  workspace 1 ends on the main workspace and a fullscreen one stays; without the
  map entry the normal window stays as well.
\<close>

theorem C8_witness:
  "workspace (win (run [WindowCreated 3 False False True 1, WindowCreatedIdle 3]
                     (demo\<lparr>fullscreenWorkspaces := [(1, 2)]\<rparr>)) 3) = Some 0
   \<and> kiwi_originalWorkspaceIndex (win (run [WindowCreated 3 False False True 1, WindowCreatedIdle 3]
                     (demo\<lparr>fullscreenWorkspaces := [(1, 2)]\<rparr>)) 3) = Some 0
   \<and> workspace (win (run [WindowCreated 3 False False True 1, WindowCreatedIdle 3] demo) 3) = Some 1
   \<and> workspace (win (run [WindowCreated 3 False True True 1, WindowCreatedIdle 3]
                     (demo\<lparr>fullscreenWorkspaces := [(1, 2)]\<rparr>)) 3) = Some 1"
  using C8_redirect_on_create[where s="demo\<lparr>fullscreenWorkspaces := [(1, 2)]\<rparr>" and w=3 and i=1
      and sk=False and fs=False and prim=True]
    C8_redirect_on_create[where s=demo and w=3 and i=1 and sk=False and fs=False and prim=True]
    C8_redirect_on_create[where s="demo\<lparr>fullscreenWorkspaces := [(1, 2)]\<rparr>" and w=3 and i=1
      and sk=False and fs=True and prim=True]
  by (simp add: demo_facts demo_fresh getFullscreenWindowOnWorkspace_def)

section \<open>The workspace count under every operation\<close>

lemma upd_win_fields [simp]:
  "n_workspaces (upd_win s w f) = n_workspaces s"
  "wm_present (upd_win s w f) = wm_present s"
  "isCreatingWorkspace (upd_win s w f) = isCreatingWorkspace s"
  "managed (upd_win s w f) = managed s"
  "mutterSettings (upd_win s w f) = mutterSettings s"
  "active_index (upd_win s w f) = active_index s"
  "fullscreenWorkspaces (upd_win s w f) = fullscreenWorkspaces s"
  "pendingCleanup (upd_win s w f) = pendingCleanup s"
  "windowSignals (upd_win s w f) = windowSignals s"
  "pendingIsolation (upd_win s w f) = pendingIsolation s"
  "pendingRestore (upd_win s w f) = pendingRestore s"
  "win (upd_win s w f) = (win s)(w := f (win s w))"
  by (simp_all add: upd_win_def)

lemma change_workspace_fields [simp]:
  "n_workspaces (change_workspace s w i) = n_workspaces s"
  "wm_present (change_workspace s w i) = wm_present s"
  "isCreatingWorkspace (change_workspace s w i) = isCreatingWorkspace s"
  "managed (change_workspace s w i) = managed s"
  "mutterSettings (change_workspace s w i) = mutterSettings s"
  "active_index (change_workspace s w i) = active_index s"
  "fullscreenWorkspaces (change_workspace s w i) = fullscreenWorkspaces s"
  "pendingCleanup (change_workspace s w i) = pendingCleanup s"
  "windowSignals (change_workspace s w i) = windowSignals s"
  "win (change_workspace s w i) = (win s)(w := (win s w)\<lparr>workspace := Some i\<rparr>)"
  by (simp_all add: change_workspace_def)

lemma captureOriginalWorkspace_fields [simp]:
  "n_workspaces (captureOriginalWorkspace s w) = n_workspaces s"
  "wm_present (captureOriginalWorkspace s w) = wm_present s"
  "isCreatingWorkspace (captureOriginalWorkspace s w) = isCreatingWorkspace s"
  by (simp_all add: captureOriginalWorkspace_def)

lemma scheduleIsolation_fields [simp]:
  "n_workspaces (scheduleIsolation s w) = n_workspaces s"
  "wm_present (scheduleIsolation s w) = wm_present s"
  "isCreatingWorkspace (scheduleIsolation s w) = isCreatingWorkspace s"
  by (simp_all add: scheduleIsolation_def Let_def)

lemma restoreWindowFromFullscreen_fields [simp]:
  "n_workspaces (restoreWindowFromFullscreen s w) = n_workspaces s"
  "wm_present (restoreWindowFromFullscreen s w) = wm_present s"
  "isCreatingWorkspace (restoreWindowFromFullscreen s w) = isCreatingWorkspace s"
  by (simp_all add: restoreWindowFromFullscreen_def Let_def split: option.split)

lemma onWindowFullscreenChanged_fields [simp]:
  "n_workspaces (onWindowFullscreenChanged s w) = n_workspaces s"
  "wm_present (onWindowFullscreenChanged s w) = wm_present s"
  "isCreatingWorkspace (onWindowFullscreenChanged s w) = isCreatingWorkspace s"
  by (simp_all add: onWindowFullscreenChanged_def)

lemma connectWindowSignals_fields [simp]:
  "n_workspaces (connectWindowSignals s w) = n_workspaces s"
  "wm_present (connectWindowSignals s w) = wm_present s"
  "isCreatingWorkspace (connectWindowSignals s w) = isCreatingWorkspace s"
  by (simp_all add: connectWindowSignals_def Let_def)

lemma onWindowCreated_fields [simp]:
  "n_workspaces (onWindowCreated s w) = n_workspaces s"
  "wm_present (onWindowCreated s w) = wm_present s"
  "isCreatingWorkspace (onWindowCreated s w) = isCreatingWorkspace s"
  by (simp_all add: onWindowCreated_def Let_def)

lemma onWindowUnmanaged_fields [simp]:
  "n_workspaces (onWindowUnmanaged s w) = n_workspaces s"
  "wm_present (onWindowUnmanaged s w) = wm_present s"
  "isCreatingWorkspace (onWindowUnmanaged s w) = isCreatingWorkspace s"
  by (simp_all add: onWindowUnmanaged_eq)

lemma executeWindowRestore_fields [simp]:
  "n_workspaces (executeWindowRestore s w oi fi) = n_workspaces s"
  "wm_present (executeWindowRestore s w oi fi) = wm_present s"
  "isCreatingWorkspace (executeWindowRestore s w oi fi) = isCreatingWorkspace s"
  by (simp_all add: executeWindowRestore_def Let_def split: option.split)

lemma restoreTimerFired_fields [simp]:
  "n_workspaces (restoreTimerFired s w) = n_workspaces s"
  "wm_present (restoreTimerFired s w) = wm_present s"
  "isCreatingWorkspace (restoreTimerFired s w) = isCreatingWorkspace s"
  by (simp_all add: restoreTimerFired_def split: option.split)

lemma windowUnmanagedDeferred_fields [simp]:
  "n_workspaces (windowUnmanagedDeferred s oi fi wi) = n_workspaces s"
  "wm_present (windowUnmanagedDeferred s oi fi wi) = wm_present s"
  "isCreatingWorkspace (windowUnmanagedDeferred s oi fi wi) = isCreatingWorkspace s"
  by (simp_all add: windowUnmanagedDeferred_def Let_def split: option.split)

lemma windowUnmanagedIdle_fields [simp]:
  "n_workspaces (windowUnmanagedIdle s w) = n_workspaces s"
  "wm_present (windowUnmanagedIdle s w) = wm_present s"
  "isCreatingWorkspace (windowUnmanagedIdle s w) = isCreatingWorkspace s"
  by (simp_all add: windowUnmanagedIdle_def split: option.split)

lemma redirect_fields [simp]:
  "n_workspaces (redirectWindowFromFullscreenWorkspace s w) = n_workspaces s"
  "wm_present (redirectWindowFromFullscreenWorkspace s w) = wm_present s"
  "isCreatingWorkspace (redirectWindowFromFullscreenWorkspace s w) = isCreatingWorkspace s"
  by (simp_all add: redirectWindowFromFullscreenWorkspace_def split: option.split)

lemma move_frameD:
  assumes "move_frame s s'"
  shows "wm_present s' = wm_present s" "n_workspaces s' = n_workspaces s"
    "active_index s' = active_index s" "managed s' = managed s" "destroyed s' = destroyed s"
    "mutterSettings s' = mutterSettings s" "wmPreferences s' = wmPreferences s"
    "windowSignals s' = windowSignals s" "pendingIsolation s' = pendingIsolation s"
    "pendingRestore s' = pendingRestore s"
    "pendingCleanup s' = pendingCleanup s" "pendingWindowCreated s' = pendingWindowCreated s"
    "pendingWindowUnmanaged s' = pendingWindowUnmanaged s"
    "checkWorkspacesId s' = checkWorkspacesId s"
    "isCreatingWorkspace s' = isCreatingWorkspace s"
  using assms by (simp_all add: move_frame_def)

lemma move_frame_refl [simp]: "move_frame s s"
  by (simp add: move_frame_def)

lemma move_frame_trans: "move_frame a b \<Longrightarrow> move_frame b c \<Longrightarrow> move_frame a c"
  by (simp add: move_frame_def)

lemma shift_window_frame: "move_frame s (shift_window i t x s)"
  by (simp add: shift_window_def Let_def move_frame_def upd_win_def change_workspace_def)

lemma shift_window_other: "w \<noteq> x \<Longrightarrow> win (shift_window i t x s) w = win s w"
  by (simp add: shift_window_def Let_def)

lemma fold_shift_window_frame: "move_frame s (fold (shift_window i t) xs s)"
proof (induction xs arbitrary: s)
  case Nil
  then show ?case by simp
next
  case (Cons x xs)
  show ?case
    using move_frame_trans[OF shift_window_frame[of s i t x] Cons.IH[of "shift_window i t x s"]]
    by simp
qed

lemma fold_shift_window_other:
  "w \<notin> set xs \<Longrightarrow> win (fold (shift_window i t) xs s) w = win s w"
  by (induction xs arbitrary: s) (simp_all add: shift_window_other)

lemma relevant_windows_on: "w \<in> set (relevant_windows s i) \<Longrightarrow> workspace (win s w) = Some i"
  by (auto simp: relevant_windows_def filterWorkspaceRelevantWindows_def list_windows_def
      split: if_splits)

lemma shift_workspace_frame: "move_frame s (shift_workspace s i)"
  by (simp add: shift_workspace_def Let_def fold_shift_window_frame split: option.split)

lemma shift_workspace_other:
  "workspace (win s w) \<noteq> Some i \<Longrightarrow> win (shift_workspace s i) w = win s w"
  using relevant_windows_on[of w s i]
  by (auto simp: shift_workspace_def Let_def get_workspace_by_index_def
      intro!: fold_shift_window_other split: option.split)

lemma shift_loop_frame: "move_frame s (shift_loop s lo k)"
proof (induction k arbitrary: s)
  case 0
  then show ?case by simp
next
  case (Suc k)
  show ?case
    using move_frame_trans[OF shift_workspace_frame[of s "lo + int k"]
        Suc.IH[of "shift_workspace s (lo + int k)"]]
    by simp
qed

lemma shift_loop_other:
  "(\<And>c. workspace (win s w) = Some c \<Longrightarrow> c < lo) \<Longrightarrow> win (shift_loop s lo k) w = win s w"
proof (induction k arbitrary: s)
  case 0
  then show ?case by simp
next
  case (Suc k)
  have ne: "workspace (win s w) \<noteq> Some (lo + int k)"
    using Suc.prems[of "lo + int k"] by auto
  have e: "win (shift_workspace s (lo + int k)) w = win s w"
    by (rule shift_workspace_other[OF ne])
  have "win (shift_loop (shift_workspace s (lo + int k)) lo k) w
          = win (shift_workspace s (lo + int k)) w"
    by (rule Suc.IH) (use Suc.prems e in auto)
  then show ?case by (simp add: e)
qed

lemma shiftOccupiedTarget_cases:
  assumes "shiftOccupiedTarget s d = Some s1"
  shows "(\<exists>k. s1 = shift_loop s d k)
       \<or> (canAppendWorkspace True s \<and> (\<exists>k. s1 = shift_loop (append_guarded s) d k))"
proof -
  define dest where "dest =
     (if findLastOccupiedWorkspaceIndex s \<ge> 0 \<and> findLastOccupiedWorkspaceIndex s + 1 < n_workspaces s
      then get_workspace_by_index s (findLastOccupiedWorkspaceIndex s + 1) else None)"
  have e: "shiftOccupiedTarget s d =
     (if dest = None \<and> \<not> canAppendWorkspace True s then None
      else Some (shift_loop (if dest = None then append_guarded s else s) d
              (nat (findLastOccupiedWorkspaceIndex (if dest = None then append_guarded s else s) - d + 1))))"
    unfolding shiftOccupiedTarget_def dest_def Let_def by (rule refl)
  show ?thesis
  proof (cases "dest = None")
    case True
    with assms e show ?thesis by (cases "canAppendWorkspace True s") auto
  next
    case False
    with assms e show ?thesis by auto
  qed
qed

lemma shiftOccupiedTarget_Some:
  assumes "shiftOccupiedTarget s d = Some s1"
  shows "n_workspaces s \<le> n_workspaces s1" "wm_present s1 = wm_present s"
    "isCreatingWorkspace s1 \<longrightarrow> isCreatingWorkspace s"
    "MAX_WORKSPACES \<le> n_workspaces s \<longrightarrow> n_workspaces s1 = n_workspaces s"
  using shiftOccupiedTarget_cases[OF assms]
  by (auto simp: canAppend_bypass move_frameD[OF shift_loop_frame])

lemma findTargetWorkspace_cases:
  assumes "findTargetWorkspace s d = Some (s1, t)"
  shows "s1 = s \<or> shiftOccupiedTarget s d = Some s1"
  using assms
  by (auto simp: findTargetWorkspace_def split: if_splits option.splits)

lemma findTargetWorkspace_Some:
  assumes "findTargetWorkspace s d = Some (s1, t)"
  shows "n_workspaces s \<le> n_workspaces s1" "wm_present s1 = wm_present s"
    "isCreatingWorkspace s1 \<longrightarrow> isCreatingWorkspace s"
    "MAX_WORKSPACES \<le> n_workspaces s \<longrightarrow> n_workspaces s1 = n_workspaces s"
  using findTargetWorkspace_cases[OF assms] shiftOccupiedTarget_Some[of s d s1]
  by auto

lemma finishIsolation_fields:
  "n_workspaces s \<le> n_workspaces (finishIsolation s w c t)"
  "wm_present (finishIsolation s w c t) = wm_present s"
  "isCreatingWorkspace (finishIsolation s w c t) = isCreatingWorkspace s"
  "MAX_WORKSPACES \<le> n_workspaces s \<Longrightarrow> n_workspaces (finishIsolation s w c t) = n_workspaces s"
  "win (finishIsolation s w c t) =
     (win s)(w := (win s w)\<lparr>workspace := Some t, kiwi_isolated := True,
                              kiwi_fullscreenWorkspaceIndex := Some t\<rparr>)"
proof -
  let ?s6 = "(if c > 0 then scheduleWorkspaceCleanup
        (cancelWorkspaceCleanup ((upd_win (activate (change_workspace s w t) t) w
            (\<lambda>r. r\<lparr>kiwi_isolated := True, kiwi_fullscreenWorkspaceIndex := Some t\<rparr>))
           \<lparr>fullscreenWorkspaces := AList.update t w (fullscreenWorkspaces (activate (change_workspace s w t) t))\<rparr>) t) c
      else cancelWorkspaceCleanup ((upd_win (activate (change_workspace s w t) t) w
            (\<lambda>r. r\<lparr>kiwi_isolated := True, kiwi_fullscreenWorkspaceIndex := Some t\<rparr>))
           \<lparr>fullscreenWorkspaces := AList.update t w (fullscreenWorkspaces (activate (change_workspace s w t) t))\<rparr>) t)"
  have e: "finishIsolation s w c t = ensureEmptyWorkspaceAtEnd ?s6"
    by (simp add: finishIsolation_def Let_def)
  have n6: "n_workspaces ?s6 = n_workspaces s" by simp
  show "n_workspaces s \<le> n_workspaces (finishIsolation s w c t)"
    unfolding e using ensure_count_mono[of ?s6] by (simp only: n6)
  show "wm_present (finishIsolation s w c t) = wm_present s"
    unfolding e by simp
  show "isCreatingWorkspace (finishIsolation s w c t) = isCreatingWorkspace s"
    unfolding e by simp
  show "n_workspaces (finishIsolation s w c t) = n_workspaces s" if "MAX_WORKSPACES \<le> n_workspaces s"
    unfolding e using ensure_at_max[of ?s6] that by (simp only: n6)
  show "win (finishIsolation s w c t) =
     (win s)(w := (win s w)\<lparr>workspace := Some t, kiwi_isolated := True,
                              kiwi_fullscreenWorkspaceIndex := Some t\<rparr>)"
    unfolding e by simp
qed

lemma isolate_cases:
  "isolateFullscreenWindow s w = s
   \<or> (\<exists>s2. isolateFullscreenWindow s w = ensureEmptyWorkspaceAtEnd s2
            \<and> n_workspaces s2 = n_workspaces s \<and> wm_present s2 = wm_present s
            \<and> isCreatingWorkspace s2 = isCreatingWorkspace s)
   \<or> (\<exists>s1 t. findTargetWorkspace s (currentIndex_of s w + 1) = Some (s1, t)
         \<and> (isolateFullscreenWindow s w = s1
            \<or> (\<exists>t'. isolateFullscreenWindow s w = finishIsolation s1 w (currentIndex_of s w) t')
            \<or> (canAppendWorkspace True s1
                 \<and> (\<exists>t'. isolateFullscreenWindow s w
                       = finishIsolation (append_guarded s1) w (currentIndex_of s w) t'))))"
proof (cases "\<not> wm_present s \<or> kiwi_isolated (win s w)")
  case True
  then show ?thesis by (auto simp: isolateFullscreenWindow_def)
next
  case a: False
  show ?thesis
  proof (cases "shouldMove s w")
    case False
    let ?s2 = "(upd_win s w (\<lambda>r. r\<lparr>kiwi_isolated := True,
                     kiwi_fullscreenWorkspaceIndex := Some (currentIndex_of s w)\<rparr>))
               \<lparr>fullscreenWorkspaces := AList.update (currentIndex_of s w) w (fullscreenWorkspaces s)\<rparr>"
    have "isolateFullscreenWindow s w = ensureEmptyWorkspaceAtEnd ?s2"
      using a False by (simp add: isolateFullscreenWindow_def Let_def)
    moreover have "n_workspaces ?s2 = n_workspaces s \<and> wm_present ?s2 = wm_present s
            \<and> isCreatingWorkspace ?s2 = isCreatingWorkspace s" by simp
    ultimately show ?thesis by blast
  next
    case True
    show ?thesis
    proof (cases "findTargetWorkspace s (currentIndex_of s w + 1)")
      case None
      then show ?thesis using a True by (simp add: isolateFullscreenWindow_def Let_def)
    next
      case (Some p)
      obtain s1 t where p: "p = (s1, t)" by (cases p)
      show ?thesis
      proof (cases t)
        case None
        then have "isolateFullscreenWindow s w =
            (if canAppendWorkspace True s1
             then finishIsolation (append_guarded s1) w (currentIndex_of s w) (n_workspaces s1)
             else s1)"
          using a True Some p by (simp add: isolateFullscreenWindow_def Let_def)
        then show ?thesis using Some p by (cases "canAppendWorkspace True s1") auto
      next
        case (Some tw)
        then have "isolateFullscreenWindow s w = finishIsolation s1 w (currentIndex_of s w) tw"
          using a True \<open>findTargetWorkspace s (currentIndex_of s w + 1) = Some p\<close> p
          by (simp add: isolateFullscreenWindow_def Let_def)
        then show ?thesis using \<open>findTargetWorkspace s (currentIndex_of s w + 1) = Some p\<close> p by auto
      qed
    qed
  qed
qed

lemma isolate_fields:
  "n_workspaces s \<le> n_workspaces (isolateFullscreenWindow s w)"
  "wm_present (isolateFullscreenWindow s w) = wm_present s"
  "isCreatingWorkspace (isolateFullscreenWindow s w) \<longrightarrow> isCreatingWorkspace s"
  "MAX_WORKSPACES \<le> n_workspaces s \<longrightarrow> n_workspaces (isolateFullscreenWindow s w) = n_workspaces s"
proof -
  have "n_workspaces s \<le> n_workspaces (isolateFullscreenWindow s w)
      \<and> wm_present (isolateFullscreenWindow s w) = wm_present s
      \<and> (isCreatingWorkspace (isolateFullscreenWindow s w) \<longrightarrow> isCreatingWorkspace s)
      \<and> (MAX_WORKSPACES \<le> n_workspaces s \<longrightarrow> n_workspaces (isolateFullscreenWindow s w) = n_workspaces s)"
    using isolate_cases[of s w]
  proof (elim disjE exE conjE)
    assume "isolateFullscreenWindow s w = s"
    then show ?thesis by simp
  next
    fix s2
    assume "isolateFullscreenWindow s w = ensureEmptyWorkspaceAtEnd s2"
      "n_workspaces s2 = n_workspaces s" "wm_present s2 = wm_present s"
      "isCreatingWorkspace s2 = isCreatingWorkspace s"
    then show ?thesis
      using ensure_count_mono[of s2] ensure_at_max[of s2] by auto
  next
    fix s1 t
    assume f: "findTargetWorkspace s (currentIndex_of s w + 1) = Some (s1, t)"
      and "isolateFullscreenWindow s w = s1"
    then show ?thesis using findTargetWorkspace_Some[OF f] by auto
  next
    fix s1 t t'
    assume f: "findTargetWorkspace s (currentIndex_of s w + 1) = Some (s1, t)"
      and e: "isolateFullscreenWindow s w = finishIsolation s1 w (currentIndex_of s w) t'"
    show ?thesis
      unfolding e
      using findTargetWorkspace_Some[OF f] finishIsolation_fields(1-4)[of s1 w "currentIndex_of s w" t']
      by auto
  next
    fix s1 t t'
    assume f: "findTargetWorkspace s (currentIndex_of s w + 1) = Some (s1, t)"
      and c: "canAppendWorkspace True s1"
      and e: "isolateFullscreenWindow s w = finishIsolation (append_guarded s1) w (currentIndex_of s w) t'"
    show ?thesis
      unfolding e
      using findTargetWorkspace_Some[OF f] c
        finishIsolation_fields(1-3)[of "append_guarded s1" w "currentIndex_of s w" t']
      by (auto simp: canAppend_bypass)
  qed
  then show "n_workspaces s \<le> n_workspaces (isolateFullscreenWindow s w)"
  "wm_present (isolateFullscreenWindow s w) = wm_present s"
  "isCreatingWorkspace (isolateFullscreenWindow s w) \<longrightarrow> isCreatingWorkspace s"
  "MAX_WORKSPACES \<le> n_workspaces s \<longrightarrow> n_workspaces (isolateFullscreenWindow s w) = n_workspaces s"
    by blast+
qed

lemma shift_entry_frame: "move_frame s (snd (shift_entry r e (m, s)))"
  by (cases e) (simp add: shift_entry_def Let_def move_frame_def upd_win_def)

lemma shift_entries_frame: "move_frame s (snd (fold (shift_entry r) es (m, s)))"
proof (induction es arbitrary: m s)
  case Nil
  then show ?case by simp
next
  case (Cons e es)
  obtain m' s' where se: "shift_entry r e (m, s) = (m', s')"
    by (cases "shift_entry r e (m, s)")
  show ?case
    using move_frame_trans[OF _ Cons.IH[where m=m' and s=s']] shift_entry_frame[of s r e m]
    by (simp add: se)
qed

lemma shift_original_frame: "move_frame s (shift_original r w s)"
  by (simp add: shift_original_def move_frame_def upd_win_def split: option.split)

lemma shift_originals_frame: "move_frame s (fold (shift_original r) ws s)"
proof (induction ws arbitrary: s)
  case Nil
  then show ?case by simp
next
  case (Cons w ws)
  show ?case
    using move_frame_trans[OF shift_original_frame[of s r w] Cons.IH[of "shift_original r w s"]]
    by simp
qed

lemma shiftFullscreenIndicesAfterRemove_frame:
  "move_frame s (shiftFullscreenIndicesAfterRemove s r)"
proof -
  obtain newMap s1 where f: "fold (shift_entry r) (fullscreenWorkspaces s) ([], s) = (newMap, s1)"
    by (cases "fold (shift_entry r) (fullscreenWorkspaces s) ([], s)")
  have a: "move_frame s s1"
    using shift_entries_frame[of s r "fullscreenWorkspaces s" "[]"] by (simp add: f)
  have b: "move_frame s1 (s1\<lparr>fullscreenWorkspaces := newMap\<rparr>)"
    by (simp add: move_frame_def)
  have c: "move_frame (s1\<lparr>fullscreenWorkspaces := newMap\<rparr>)
             (fold (shift_original r) (windowSignals s1) (s1\<lparr>fullscreenWorkspaces := newMap\<rparr>))"
    by (rule shift_originals_frame)
  have "shiftFullscreenIndicesAfterRemove s r =
          fold (shift_original r) (windowSignals s1) (s1\<lparr>fullscreenWorkspaces := newMap\<rparr>)"
    by (simp add: shiftFullscreenIndicesAfterRemove_def f Let_def)
  then show ?thesis
    using move_frame_trans[OF a move_frame_trans[OF b c]] by simp
qed

lemma remove_and_shift_fields:
  "wm_present (remove_and_shift s i) = wm_present s"
  "isCreatingWorkspace (remove_and_shift s i) = isCreatingWorkspace s"
  "n_workspaces (remove_and_shift s i) =
     (if n_workspaces s \<le> 1 \<or> i < 0 \<or> i \<ge> n_workspaces s then n_workspaces s
      else n_workspaces s - 1)"
  by (simp_all add: remove_and_shift_def Let_def remove_workspace_fields
        move_frameD[OF shiftFullscreenIndicesAfterRemove_frame])

lemma cleanupWorkspaceIfEmpty_cases:
  "cleanupWorkspaceIfEmpty s i = s
   \<or> cleanupWorkspaceIfEmpty s i = ensureEmptyWorkspaceAtEnd s
   \<or> (MIN_WORKSPACES < n_workspaces s
      \<and> cleanupWorkspaceIfEmpty s i = ensureEmptyWorkspaceAtEnd (remove_and_shift s i))"
  by (auto simp: cleanupWorkspaceIfEmpty_def Let_def split: option.split)

lemma cleanupWorkspaceIfEmpty_fields:
  "min MIN_WORKSPACES (n_workspaces s) \<le> n_workspaces (cleanupWorkspaceIfEmpty s i)"
  "wm_present (cleanupWorkspaceIfEmpty s i) = wm_present s"
  "isCreatingWorkspace (cleanupWorkspaceIfEmpty s i) = isCreatingWorkspace s"
  using cleanupWorkspaceIfEmpty_cases[of s i] ensure_count_mono[of s]
    ensure_count_mono[of "remove_and_shift s i"]
  by (auto simp: remove_and_shift_fields MIN_WORKSPACES_def split: if_splits)

lemma cleanup_all_loop_fields:
  "min MIN_WORKSPACES (n_workspaces s) \<le> n_workspaces (cleanup_all_loop s xs)
   \<and> wm_present (cleanup_all_loop s xs) = wm_present s
   \<and> isCreatingWorkspace (cleanup_all_loop s xs) = isCreatingWorkspace s"
proof (induction xs arbitrary: s)
  case Nil
  then show ?case by simp
next
  case (Cons idx rest)
  show ?case
    using Cons.IH[of s] Cons.IH[of "remove_and_shift s idx"]
    by (auto simp: remove_and_shift_fields MIN_WORKSPACES_def split: option.split if_splits)
qed

lemma cleanupAllEmptyWorkspaces_fields:
  "min MIN_WORKSPACES (n_workspaces s) \<le> n_workspaces (cleanupAllEmptyWorkspaces s)"
  "wm_present (cleanupAllEmptyWorkspaces s) = wm_present s"
  "isCreatingWorkspace (cleanupAllEmptyWorkspaces s) = isCreatingWorkspace s"
proof -
  have "cleanupAllEmptyWorkspaces s = s
      \<or> (\<exists>xs. cleanupAllEmptyWorkspaces s = ensureEmptyWorkspaceAtEnd (cleanup_all_loop s xs))"
    by (auto simp: cleanupAllEmptyWorkspaces_def Let_def)
  then have "min MIN_WORKSPACES (n_workspaces s) \<le> n_workspaces (cleanupAllEmptyWorkspaces s)
      \<and> wm_present (cleanupAllEmptyWorkspaces s) = wm_present s
      \<and> isCreatingWorkspace (cleanupAllEmptyWorkspaces s) = isCreatingWorkspace s"
  proof (elim disjE exE)
    assume "cleanupAllEmptyWorkspaces s = s"
    then show ?thesis by simp
  next
    fix xs
    assume e: "cleanupAllEmptyWorkspaces s = ensureEmptyWorkspaceAtEnd (cleanup_all_loop s xs)"
    show ?thesis
      unfolding e
      using cleanup_all_loop_fields[of s xs] ensure_count_mono[of "cleanup_all_loop s xs"]
      by auto
  qed
  then show "min MIN_WORKSPACES (n_workspaces s) \<le> n_workspaces (cleanupAllEmptyWorkspaces s)"
    "wm_present (cleanupAllEmptyWorkspaces s) = wm_present s"
    "isCreatingWorkspace (cleanupAllEmptyWorkspaces s) = isCreatingWorkspace s"
    by blast+
qed

lemma cleanupTimerFired_fields:
  "min MIN_WORKSPACES (n_workspaces s) \<le> n_workspaces (cleanupTimerFired s key)"
  "wm_present (cleanupTimerFired s key) = wm_present s"
  "isCreatingWorkspace (cleanupTimerFired s key) = isCreatingWorkspace s"
  using cleanupWorkspaceIfEmpty_fields[of "s\<lparr>pendingCleanup := (pendingCleanup s)(key := None)\<rparr>"]
    cleanupAllEmptyWorkspaces_fields[of "s\<lparr>pendingCleanup := (pendingCleanup s)(key := None)\<rparr>"]
  by (auto simp: cleanupTimerFired_def Let_def split: option.split cleanup_task.split)

lemma step_fields:
  "min MIN_WORKSPACES (n_workspaces s) \<le> n_workspaces (step e s)"
  "wm_present (step e s) = wm_present s"
  "isCreatingWorkspace (step e s) \<longrightarrow> isCreatingWorkspace s"
proof -
  have "min MIN_WORKSPACES (n_workspaces s) \<le> n_workspaces (step e s)
      \<and> wm_present (step e s) = wm_present s
      \<and> (isCreatingWorkspace (step e s) \<longrightarrow> isCreatingWorkspace s)"
  proof (cases e)
    case (IsolationTimer w)
    then show ?thesis
      using isolate_fields(1-3)[of "s\<lparr>pendingIsolation := pendingIsolation s - {w}\<rparr>" w]
      by (auto simp: isolationTimerFired_def Let_def)
  next
    case (CleanupTimer key)
    then show ?thesis using cleanupTimerFired_fields[of s key] by simp
  next
    case CheckWorkspacesIdle
    then show ?thesis
      using ensure_count_mono[of "s\<lparr>checkWorkspacesId := False\<rparr>"]
      by (auto simp: checkWorkspacesIdle_def checkWorkspaces_def)
  next
    case (WindowCreatedIdle w)
    then show ?thesis
      using ensure_count_mono[of "redirectWindowFromFullscreenWorkspace
              (s\<lparr>pendingWindowCreated := pendingWindowCreated s - {w}\<rparr>) w"]
      by (auto simp: windowCreatedIdle_def Let_def)
  next
    case (UserSwitch i)
    then show ?thesis by (simp split: option.split)
  qed (simp_all add: Let_def)
  then show "min MIN_WORKSPACES (n_workspaces s) \<le> n_workspaces (step e s)"
    "wm_present (step e s) = wm_present s"
    "isCreatingWorkspace (step e s) \<longrightarrow> isCreatingWorkspace s"
    by blast+
qed

lemma run_fields:
  "min MIN_WORKSPACES (n_workspaces s) \<le> n_workspaces (run evs s)
   \<and> wm_present (run evs s) = wm_present s
   \<and> (isCreatingWorkspace (run evs s) \<longrightarrow> isCreatingWorkspace s)"
proof (induction evs arbitrary: s)
  case Nil
  then show ?case by (simp add: run_def)
next
  case (Cons e evs)
  have r: "run (e # evs) s = run evs (step e s)" by (simp add: run_def)
  show ?case
    unfolding r using Cons.IH[of "step e s"] step_fields[where s=s and e=e] by auto
qed

section \<open>The workspace count never drops below two\<close>

text \<open>
  Claim C3. Along every sequence of events of the event loop (fullscreen toggles,
  the timers and idle callbacks they schedule, window creation and closing,
  workspace switches) a workspace count of at least 2 stays at least 2; neither
  cleanup (the cleanup of one workspace, the sweep of all empty ones) leaves fewer
  than 2 workspaces; and \<open>_ensureEmptyWorkspaceAtEnd\<close>, entered with the creation
  flag clear, appends workspaces until there are at least 2.
\<close>

theorem C3_count_never_below_two:
  "(MIN_WORKSPACES \<le> n_workspaces s \<longrightarrow> MIN_WORKSPACES \<le> n_workspaces (run evs s))
   \<and> (MIN_WORKSPACES \<le> n_workspaces s \<longrightarrow>
        MIN_WORKSPACES \<le> n_workspaces (cleanupWorkspaceIfEmpty s workspaceIndex)
        \<and> MIN_WORKSPACES \<le> n_workspaces (cleanupAllEmptyWorkspaces s))
   \<and> (wm_present s \<and> \<not> isCreatingWorkspace s \<longrightarrow>
        MIN_WORKSPACES \<le> n_workspaces (ensureEmptyWorkspaceAtEnd s))"
proof (intro conjI impI)
  assume "MIN_WORKSPACES \<le> n_workspaces s"
  then show "MIN_WORKSPACES \<le> n_workspaces (run evs s)"
    using run_fields[of s evs] by simp
next
  assume "MIN_WORKSPACES \<le> n_workspaces s"
  then show "MIN_WORKSPACES \<le> n_workspaces (cleanupWorkspaceIfEmpty s workspaceIndex)"
    using cleanupWorkspaceIfEmpty_fields(1)[of s workspaceIndex] by simp
next
  assume "MIN_WORKSPACES \<le> n_workspaces s"
  then show "MIN_WORKSPACES \<le> n_workspaces (cleanupAllEmptyWorkspaces s)"
    using cleanupAllEmptyWorkspaces_fields(1)[of s] by simp
next
  assume "wm_present s \<and> \<not> isCreatingWorkspace s"
  then show "MIN_WORKSPACES \<le> n_workspaces (ensureEmptyWorkspaceAtEnd s)"
    using ensure_count_min[of s] by simp
qed

theorem C3_witness:
  "2 \<le> n_workspaces
          (run [FullscreenChanged 1 True, IsolationTimer 1, CheckWorkspacesIdle,
                FullscreenChanged 1 False, RestoreTimer 1, CleanupTimer 1] demo)
   \<and> 2 \<le> n_workspaces (cleanupWorkspaceIfEmpty demo 1)
   \<and> 2 \<le> n_workspaces (cleanupAllEmptyWorkspaces demo)
   \<and> 2 \<le> n_workspaces (ensureEmptyWorkspaceAtEnd (demo\<lparr>n_workspaces := 0\<rparr>))"
  using C3_count_never_below_two[of demo
      "[FullscreenChanged 1 True, IsolationTimer 1, CheckWorkspacesIdle,
        FullscreenChanged 1 False, RestoreTimer 1, CleanupTimer 1]" 1]
    C3_count_never_below_two[of "demo\<lparr>n_workspaces := 0\<rparr>" "[]" 1]
  by (simp add: demo_facts MIN_WORKSPACES_def)

text \<open>
  The creation flag is clear between events: every append sets and clears it
  within the same statement sequence.
\<close>

lemma creation_flag_clear:
  "\<not> isCreatingWorkspace s \<Longrightarrow> \<not> isCreatingWorkspace (run evs s)"
  using run_fields[of s evs] by blast

section \<open>The last occupied workspace\<close>

text \<open>
  \<open>_findLastOccupiedWorkspaceIndex\<close> returns an occupied workspace with only empty
  workspaces after it, or \<open>-1\<close>; appending a workspace does not change it when every
  window is on an existing workspace.
\<close>

lemma last_occupied_bounds: "-1 \<le> last_occupied_from s k \<and> last_occupied_from s k < int k"
  by (induction k) (auto split: option.split)

lemma last_occupied_occupied:
  "0 \<le> last_occupied_from s k \<Longrightarrow> relevant_windows s (last_occupied_from s k) \<noteq> []"
  by (induction k) (auto simp: get_workspace_by_index_def split: option.splits if_splits)

lemma last_occupied_after:
  "last_occupied_from s k < i \<Longrightarrow> i < int k \<Longrightarrow> i < n_workspaces s \<Longrightarrow>
   relevant_windows s i = []"
proof (induction k)
  case 0
  then show ?case by simp
next
  case (Suc k)
  show ?case
  proof (cases "i = int k")
    case True
    with Suc.prems show ?thesis
      by (auto simp: get_workspace_by_index_def split: option.splits if_splits)
  next
    case False
    with Suc.prems have "last_occupied_from s k < i" "i < int k"
      using last_occupied_bounds[of s k]
      by (auto simp: get_workspace_by_index_def split: option.splits if_splits)
    then show ?thesis using Suc.IH Suc.prems(3) by blast
  qed
qed

lemma relevant_windows_cong:
  "win s' = win s \<Longrightarrow> managed s' = managed s \<Longrightarrow> mutterSettings s' = mutterSettings s \<Longrightarrow>
   relevant_windows s' i = relevant_windows s i"
  by (simp add: relevant_windows_def filterWorkspaceRelevantWindows_def list_windows_def
        isWorkspacesOnlyOnPrimary_def)

lemma last_occupied_cong:
  "win s' = win s \<Longrightarrow> managed s' = managed s \<Longrightarrow> mutterSettings s' = mutterSettings s \<Longrightarrow>
   int k \<le> n_workspaces s \<Longrightarrow> int k \<le> n_workspaces s' \<Longrightarrow>
   last_occupied_from s' k = last_occupied_from s k"
proof (induction k)
  case 0
  then show ?case by simp
next
  case (Suc k)
  have r: "relevant_windows s' (int k) = relevant_windows s (int k)"
    by (rule relevant_windows_cong[OF Suc.prems(1,2,3)])
  have g: "get_workspace_by_index s' (int k) = Some (int k)"
    "get_workspace_by_index s (int k) = Some (int k)"
    using Suc.prems(4,5) by (simp_all add: get_workspace_by_index_def)
  have ih: "last_occupied_from s' k = last_occupied_from s k"
    using Suc.prems(4,5) by (intro Suc.IH[OF Suc.prems(1,2,3)]) simp_all
  show ?case by (simp only: last_occupied_from.simps g option.case r ih)
qed

lemma relevant_windows_out_of_range:
  "windows_in_range s \<Longrightarrow> n_workspaces s \<le> i \<Longrightarrow> relevant_windows s i = []"
proof -
  assume a: "windows_in_range s" "n_workspaces s \<le> i"
  have "list_windows s i = []"
    unfolding list_windows_def filter_empty_conv
  proof
    fix w assume "w \<in> set (managed s)"
    with a(1) have "case workspace (win s w) of Some j \<Rightarrow> j < n_workspaces s | None \<Rightarrow> True"
      by (simp add: windows_in_range_def list_all_iff)
    with a(2) show "\<not> workspace (win s w) = Some i" by (auto split: option.splits)
  qed
  then show ?thesis
    by (simp add: relevant_windows_def filterWorkspaceRelevantWindows_def)
qed

lemma findLast_after:
  "wm_present s \<Longrightarrow> findLastOccupiedWorkspaceIndex s < i \<Longrightarrow> i < n_workspaces s \<Longrightarrow>
   relevant_windows s i = []"
  using last_occupied_after[of s "nat (n_workspaces s)" i]
  by (simp add: findLastOccupiedWorkspaceIndex_def)

lemma findLast_append:
  assumes "wm_present s" and "windows_in_range s" and "0 \<le> n_workspaces s"
  shows "findLastOccupiedWorkspaceIndex (append_guarded s) = findLastOccupiedWorkspaceIndex s"
proof -
  let ?s' = "append_guarded s"
  have n: "nat (n_workspaces ?s') = Suc (nat (n_workspaces s))" using assms(3) by simp
  have e: "relevant_windows ?s' (n_workspaces s) = []"
    using relevant_windows_out_of_range[OF assms(2), of "n_workspaces s"]
      relevant_windows_cong[of ?s' s "n_workspaces s"] by simp
  have "last_occupied_from ?s' (Suc (nat (n_workspaces s))) = last_occupied_from ?s' (nat (n_workspaces s))"
    using e assms(3) by (simp add: get_workspace_by_index_def)
  also have "\<dots> = last_occupied_from s (nat (n_workspaces s))"
    using assms(3) by (intro last_occupied_cong) simp_all
  finally show ?thesis using assms(1) n by (simp add: findLastOccupiedWorkspaceIndex_def)
qed

lemma ensure_trailing:
  assumes "wm_present s" and "\<not> isCreatingWorkspace s" and "windows_in_range s"
    and "n_workspaces (ensureEmptyWorkspaceAtEnd s) < MAX_WORKSPACES"
  shows "findLastOccupiedWorkspaceIndex (ensureEmptyWorkspaceAtEnd s) + 1
           < n_workspaces (ensureEmptyWorkspaceAtEnd s)"
proof -
  let ?s1 = "ensure_min_loop s"
  let ?lo = "findLastOccupiedWorkspaceIndex ?s1"
  have f: "wm_present ?s1" "\<not> isCreatingWorkspace ?s1" "win ?s1 = win s" "managed ?s1 = managed s"
    using assms(1,2) by simp_all
  have n1: "MIN_WORKSPACES \<le> n_workspaces ?s1" "n_workspaces s \<le> n_workspaces ?s1"
    using ensure_min_loop_frame[of s] assms(1,2) by simp_all
  have wr: "windows_in_range ?s1"
    using assms(3) n1(2) by (auto simp: windows_in_range_def f list_all_iff split: option.splits)
  have lo: "-1 \<le> ?lo" "?lo < n_workspaces ?s1"
    using last_occupied_bounds[of ?s1 "nat (n_workspaces ?s1)"] f(1) n1(1)
    by (simp_all add: findLastOccupiedWorkspaceIndex_def MIN_WORKSPACES_def)
  show ?thesis
  proof (cases "?lo \<ge> 0 \<and> n_workspaces ?s1 \<le> ?lo + 1 \<and> canAppendWorkspace True ?s1")
    case True
    then have e: "ensureEmptyWorkspaceAtEnd s = append_guarded ?s1"
      using assms(1,2)
      by (simp add: ensureEmptyWorkspaceAtEnd_def Let_def KEEP_EMPTY_WORKSPACE_AT_END_def
            del: append_guarded_eq)
    have "findLastOccupiedWorkspaceIndex (append_guarded ?s1) = ?lo"
      using findLast_append[OF f(1) wr] n1(1) by (simp add: MIN_WORKSPACES_def del: append_guarded_eq)
    then show ?thesis unfolding e using lo by simp
  next
    case False
    then have e: "ensureEmptyWorkspaceAtEnd s = ?s1"
      using assms(1,2)
      by (auto simp add: ensureEmptyWorkspaceAtEnd_def Let_def KEEP_EMPTY_WORKSPACE_AT_END_def
            simp del: append_guarded_eq)
    have "canAppendWorkspace True ?s1"
      using assms(4) f(1,2) unfolding e by (simp add: canAppend_bypass)
    with False have "?lo < 0 \<or> ?lo + 1 < n_workspaces ?s1" by auto
    then show ?thesis
      unfolding e using lo n1(1) by (auto simp: MIN_WORKSPACES_def)
  qed
qed

subsection \<open>Evaluation at the example states\<close>

lemmas eval_defs =
  ensureEmptyWorkspaceAtEnd_def ensure_min_loop_id findLastOccupiedWorkspaceIndex_def
  relevant_windows_def filterWorkspaceRelevantWindows_def isWorkspacesOnlyOnPrimary_def
  isDynamicWorkspaceMode_def list_windows_def get_workspace_by_index_def canAppend_bypass
  MIN_WORKSPACES_def MAX_WORKSPACES_def KEEP_EMPTY_WORKSPACE_AT_END_def CLEANUP_ALL_ID_def
  Let_def new_window_def

lemma demo_more:
  "win demo (Suc 0) = (new_window False False True 0)\<lparr>kiwi_originalWorkspaceIndex := Some 0\<rparr>"
  "mutterSettings demo = Some \<lparr>dynamic_workspaces = True, workspaces_only_on_primary = False\<rparr>"
  "pendingIsolation demo = {}" "pendingRestore demo = Map.empty" "pendingWindowCreated demo = {}"
  "pendingWindowUnmanaged demo = Map.empty" "\<not> checkWorkspacesId demo" "destroyed demo = {}"
  by (simp_all add: demo_def)

lemma demo_closed_facts:
  "wm_present demo_closed" "n_workspaces demo_closed = 3" "active_index demo_closed = 1"
  "\<not> isCreatingWorkspace demo_closed" "pendingCleanup demo_closed = Map.empty"
  "relevant_windows demo_closed 0 = [1]" "relevant_windows demo_closed 1 = []"
  "relevant_windows demo_closed 2 = []"
  by (simp_all add: demo_closed_def demo_facts demo_more eval_defs)

lemma demo_closed_last: "findLastOccupiedWorkspaceIndex demo_closed = 0"
  by (simp add: findLastOccupiedWorkspaceIndex_def eval_nat_numeral get_workspace_by_index_def
        demo_closed_facts)

lemma demo_closed_ensure: "ensureEmptyWorkspaceAtEnd demo_closed = demo_closed"
  by (simp add: ensureEmptyWorkspaceAtEnd_def ensure_min_loop_id demo_closed_facts
        demo_closed_last MIN_WORKSPACES_def)

lemma demo_close_2:
  "run [WindowUnmanaged 2, WindowUnmanagedIdle 2] demo =
     demo_closed\<lparr>pendingCleanup := [1 \<mapsto> CleanupOne 1]\<rparr>"
  by (simp add: unmanaged_then_idle demo_facts windowUnmanagedDeferred_def eval_defs)
     (simp add: demo_def demo_closed_def new_window_def)

lemma demo_close_2_cleanup:
  "run [WindowUnmanaged 2, WindowUnmanagedIdle 2, CleanupTimer 1] demo = demo_closed"
proof -
  have c: "cleanupWorkspaceIfEmpty demo_closed 1 = demo_closed"
    by (simp add: cleanupWorkspaceIfEmpty_def demo_closed_facts demo_closed_ensure
          get_workspace_by_index_def MIN_WORKSPACES_def)
  have u: "demo_closed\<lparr>pendingCleanup := Map.empty\<rparr> = demo_closed"
    by (simp add: demo_closed_def demo_def)
  have "run [WindowUnmanaged 2, WindowUnmanagedIdle 2, CleanupTimer 1] demo =
        cleanupTimerFired (run [WindowUnmanaged 2, WindowUnmanagedIdle 2] demo) 1"
    by (simp add: run_def)
  also have "\<dots> = demo_closed"
    unfolding demo_close_2 by (simp add: cleanupTimerFired_def u c)
  finally show ?thesis .
qed

lemma demo_relevant:
  "relevant_windows demo 0 = [1]" "relevant_windows demo 1 = [2]" "relevant_windows demo 2 = []"
  by (simp_all add: demo_facts demo_more eval_defs)

lemma demo_last: "findLastOccupiedWorkspaceIndex demo = 1"
  by (simp add: findLastOccupiedWorkspaceIndex_def eval_nat_numeral get_workspace_by_index_def
        demo_facts demo_relevant)

section \<open>Isolating a fullscreen window: the decision and the ceiling\<close>

text \<open>
  The three outcomes of \<open>_isolateFullscreenWindow\<close> for a window that is not yet
  isolated: it stays (it is alone on a workspace other than the main one), the
  isolation is abandoned (a workspace is needed and none can be appended), or it
  is moved to the workspace after its own.
\<close>

lemma isolate_stay:
  assumes "wm_present s" and "\<not> kiwi_isolated (win s w)" and "\<not> shouldMove s w"
  shows "win (isolateFullscreenWindow s w) =
           (win s)(w := (win s w)\<lparr>kiwi_isolated := True,
                                   kiwi_fullscreenWorkspaceIndex := Some (currentIndex_of s w)\<rparr>)"
  using assms by (simp add: isolateFullscreenWindow_def Let_def)

lemma findTarget_beyond:
  "n_workspaces s \<le> d \<Longrightarrow> findTargetWorkspace s d = Some (s, None)"
  by (simp add: findTargetWorkspace_def)

lemma findTarget_empty:
  "0 \<le> d \<Longrightarrow> d < n_workspaces s \<Longrightarrow> relevant_windows s d = [] \<Longrightarrow>
   findTargetWorkspace s d = Some (s, Some d)"
  by (simp add: findTargetWorkspace_def get_workspace_by_index_def)

lemma findTarget_occupied:
  "0 \<le> d \<Longrightarrow> d < n_workspaces s \<Longrightarrow> relevant_windows s d \<noteq> [] \<Longrightarrow>
   findTargetWorkspace s d =
     (case shiftOccupiedTarget s d of None \<Rightarrow> None | Some s1 \<Rightarrow> Some (s1, Some d))"
  by (simp add: findTargetWorkspace_def get_workspace_by_index_def)

lemma shiftOccupied_None:
  "\<not> (findLastOccupiedWorkspaceIndex s \<ge> 0 \<and> findLastOccupiedWorkspaceIndex s + 1 < n_workspaces s)
   \<Longrightarrow> \<not> canAppendWorkspace True s \<Longrightarrow> shiftOccupiedTarget s d = None"
  by (auto simp: shiftOccupiedTarget_def Let_def)

lemma shiftOccupied_Some:
  "(findLastOccupiedWorkspaceIndex s \<ge> 0 \<and> findLastOccupiedWorkspaceIndex s + 1 < n_workspaces s)
   \<or> canAppendWorkspace True s \<Longrightarrow> \<exists>s1. shiftOccupiedTarget s d = Some s1"
  by (auto simp: shiftOccupiedTarget_def Let_def get_workspace_by_index_def)

lemma isolate_abort:
  assumes "wm_present s" and "\<not> kiwi_isolated (win s w)" and "shouldMove s w"
    and "needs_new_workspace s w" and "\<not> canAppendWorkspace True s"
    and "0 \<le> currentIndex_of s w"
  shows "isolateFullscreenWindow s w = s"
proof (cases "n_workspaces s \<le> currentIndex_of s w + 1")
  case True
  then show ?thesis
    using assms by (simp add: isolateFullscreenWindow_def Let_def findTarget_beyond)
next
  case False
  with assms(4) have o: "relevant_windows s (currentIndex_of s w + 1) \<noteq> []"
    and l: "\<not> (findLastOccupiedWorkspaceIndex s \<ge> 0
              \<and> findLastOccupiedWorkspaceIndex s + 1 < n_workspaces s)"
    by (auto simp: needs_new_workspace_def Let_def)
  have "findTargetWorkspace s (currentIndex_of s w + 1) = None"
    using False assms(6) o shiftOccupied_None[OF l assms(5)]
    by (simp add: findTarget_occupied)
  then show ?thesis
    using assms by (simp add: isolateFullscreenWindow_def Let_def)
qed

lemma isolate_move:
  assumes "wm_present s" and "\<not> kiwi_isolated (win s w)" and "shouldMove s w"
    and "needs_new_workspace s w \<longrightarrow> canAppendWorkspace True s"
    and "0 \<le> currentIndex_of s w" and "currentIndex_of s w < n_workspaces s"
  shows "workspace (win (isolateFullscreenWindow s w) w) = Some (currentIndex_of s w + 1)"
proof -
  let ?c = "currentIndex_of s w"
  let ?d = "?c + 1"
  have iso: "isolateFullscreenWindow s w =
      (case findTargetWorkspace s ?d of
         None \<Rightarrow> s
       | Some (s1, Some targetWs) \<Rightarrow> finishIsolation s1 w ?c targetWs
       | Some (s1, None) \<Rightarrow>
           if canAppendWorkspace True s1
           then finishIsolation (append_guarded s1) w ?c (n_workspaces s1)
           else s1)"
    using assms(1,2,3) by (simp add: isolateFullscreenWindow_def Let_def)
  show ?thesis
  proof (cases "n_workspaces s \<le> ?d")
    case True
    then have nn: "needs_new_workspace s w" by (simp add: needs_new_workspace_def Let_def)
    have n: "n_workspaces s = ?d" using True assms(6) by simp
    show ?thesis
      unfolding iso findTarget_beyond[OF True]
      using assms(4) nn n by (simp add: finishIsolation_fields(5) del: append_guarded_eq)
  next
    case False
    then have lt: "?d < n_workspaces s" by simp
    have ge: "0 \<le> ?d" using assms(5) by simp
    show ?thesis
    proof (cases "relevant_windows s ?d = []")
      case True
      show ?thesis
        unfolding iso findTarget_empty[OF ge lt True]
        by (simp add: finishIsolation_fields(5))
    next
      case occ: False
      have "(findLastOccupiedWorkspaceIndex s \<ge> 0
              \<and> findLastOccupiedWorkspaceIndex s + 1 < n_workspaces s)
            \<or> canAppendWorkspace True s"
        using assms(4) occ by (auto simp: needs_new_workspace_def Let_def)
      then obtain s1 where s1: "shiftOccupiedTarget s ?d = Some s1"
        using shiftOccupied_Some by blast
      show ?thesis
        unfolding iso findTarget_occupied[OF ge lt occ] s1
        by (simp add: finishIsolation_fields(5))
    qed
  qed
qed

lemma timer_removed_cong:
  "currentIndex_of (s\<lparr>pendingIsolation := X\<rparr>) w = currentIndex_of s w"
  "otherWindowsOnCurrent (s\<lparr>pendingIsolation := X\<rparr>) w = otherWindowsOnCurrent s w"
  "shouldMove (s\<lparr>pendingIsolation := X\<rparr>) w = shouldMove s w"
  "relevant_windows (s\<lparr>pendingIsolation := X\<rparr>) i = relevant_windows s i"
  "canAppendWorkspace True (s\<lparr>pendingIsolation := X\<rparr>) = canAppendWorkspace True s"
  by (simp_all add: currentIndex_of_def otherWindowsOnCurrent_def shouldMove_def
        relevant_windows_def filterWorkspaceRelevantWindows_def isWorkspacesOnlyOnPrimary_def
        list_windows_def canAppend_bypass split: option.split)

lemma timer_removed_last:
  "findLastOccupiedWorkspaceIndex (s\<lparr>pendingIsolation := X\<rparr>) = findLastOccupiedWorkspaceIndex s"
proof -
  have "last_occupied_from (s\<lparr>pendingIsolation := X\<rparr>) k = last_occupied_from s k" for k
    by (induction k) (simp_all add: timer_removed_cong(4) get_workspace_by_index_def)
  then show ?thesis by (simp add: findLastOccupiedWorkspaceIndex_def)
qed

lemma timer_removed_needs:
  "needs_new_workspace (s\<lparr>pendingIsolation := X\<rparr>) w = needs_new_workspace s w"
  by (simp add: needs_new_workspace_def timer_removed_cong timer_removed_last)

text \<open>
  Claim C5, as amended. When the isolation timer of a window fires while the window
  is still fullscreen (and not yet marked isolated), the manager moves the window,
  to workspace \<open>currentIndex + 1\<close>, if and only if (a) its current workspace index
  is 0 or at least one other relevant window (non-skip-taskbar, and on the primary
  monitor when workspaces are only on the primary) shares its workspace, and (b) the
  move needs no new workspace or the count is still below the ceiling of 36. In
  every other case the window stays on its workspace; in particular a window alone
  on a workspace of index greater than 0 is not moved.
\<close>

theorem C5_isolation_decision:
  assumes "wm_present s" and "\<not> isCreatingWorkspace s"
    and "w \<in> pendingIsolation s" and "fullscreen (win s w)" and "\<not> kiwi_isolated (win s w)"
    and "0 \<le> currentIndex_of s w" and "currentIndex_of s w < n_workspaces s"
  shows "workspace (win (isolationTimerFired s w) w) =
           (if (currentIndex_of s w = 0 \<or> otherWindowsOnCurrent s w > 0)
               \<and> (needs_new_workspace s w \<longrightarrow> n_workspaces s < MAX_WORKSPACES)
            then Some (currentIndex_of s w + 1)
            else workspace (win s w))"
proof -
  let ?s1 = "s\<lparr>pendingIsolation := pendingIsolation s - {w}\<rparr>"
  have t: "isolationTimerFired s w = isolateFullscreenWindow ?s1 w"
    using assms(3,4) by (simp add: isolationTimerFired_def Let_def)
  have f: "wm_present ?s1" "\<not> kiwi_isolated (win ?s1 w)" "0 \<le> currentIndex_of ?s1 w"
    "currentIndex_of ?s1 w < n_workspaces ?s1"
    using assms by (simp_all add: timer_removed_cong)
  have ca: "canAppendWorkspace True ?s1 = (n_workspaces s < MAX_WORKSPACES)"
    using assms(1,2) by (simp add: canAppend_bypass)
  show ?thesis
  proof (cases "shouldMove s w")
    case False
    then have "workspace (win (isolateFullscreenWindow ?s1 w) w) = workspace (win s w)"
      using isolate_stay[OF f(1,2)] by (simp add: timer_removed_cong)
    then show ?thesis using False unfolding t by (simp add: shouldMove_def)
  next
    case sm: True
    then have sm1: "shouldMove ?s1 w" by (simp add: timer_removed_cong)
    show ?thesis
    proof (cases "needs_new_workspace s w \<longrightarrow> n_workspaces s < MAX_WORKSPACES")
      case True
      then have "needs_new_workspace ?s1 w \<longrightarrow> canAppendWorkspace True ?s1"
        by (simp only: timer_removed_needs ca)
      from isolate_move[OF f(1,2) sm1 this f(3,4)]
      show ?thesis using sm True unfolding t by (simp add: timer_removed_cong shouldMove_def)
    next
      case False
      then have "needs_new_workspace ?s1 w" "\<not> canAppendWorkspace True ?s1"
        by (simp_all only: timer_removed_needs ca) simp_all
      from isolate_abort[OF f(1,2) sm1 this f(3)]
      show ?thesis using False unfolding t by simp
    qed
  qed
qed

text \<open>
  Claim C2, as amended. When the isolation timer of a window fires while the count
  equals the ceiling of 36, no workspace is created; and when isolating the window
  would need a new workspace (the target index does not exist, or the target is
  occupied and no workspace follows the last occupied one), no window is moved. A
  window whose target workspace exists and is empty, or can be emptied by shifting
  into a trailing empty workspace, is still moved at the ceiling.
\<close>

theorem C2_ceiling_no_new_workspace:
  assumes "wm_present s" and "n_workspaces s = MAX_WORKSPACES" and "0 \<le> currentIndex_of s w"
  shows "n_workspaces (isolationTimerFired s w) = n_workspaces s
       \<and> (needs_new_workspace s w \<longrightarrow>
            (\<forall>x. workspace (win (isolationTimerFired s w) x) = workspace (win s x)))"
proof (cases "w \<in> pendingIsolation s \<and> fullscreen (win s w)")
  case False
  then show ?thesis by (auto simp: isolationTimerFired_def Let_def)
next
  case True
  let ?s1 = "s\<lparr>pendingIsolation := pendingIsolation s - {w}\<rparr>"
  have t: "isolationTimerFired s w = isolateFullscreenWindow ?s1 w"
    using True by (simp add: isolationTimerFired_def Let_def)
  have f: "wm_present ?s1" "0 \<le> currentIndex_of ?s1 w" "MAX_WORKSPACES \<le> n_workspaces ?s1"
    using assms by (simp_all add: timer_removed_cong)
  have n: "n_workspaces (isolateFullscreenWindow ?s1 w) = n_workspaces s"
    using isolate_fields(4)[of ?s1 w] f(3) by simp
  have m: "workspace (win (isolateFullscreenWindow ?s1 w) x) = workspace (win s x)"
    if nn: "needs_new_workspace s w" for x
  proof (cases "kiwi_isolated (win ?s1 w)")
    case True
    then show ?thesis by (simp add: isolateFullscreenWindow_def)
  next
    case ni: False
    show ?thesis
    proof (cases "shouldMove ?s1 w")
      case False
      show ?thesis using isolate_stay[OF f(1) ni False] by simp
    next
      case sm: True
      have "needs_new_workspace ?s1 w" using nn by (simp only: timer_removed_needs)
      moreover have "\<not> canAppendWorkspace True ?s1" using f(3) by (simp add: canAppend_bypass)
      ultimately have "isolateFullscreenWindow ?s1 w = ?s1"
        using isolate_abort[OF f(1) ni sm _ _ f(2)] by blast
      then show ?thesis by simp
    qed
  qed
  show ?thesis unfolding t using n m by blast
qed

subsection \<open>Isolation at concrete states\<close>

lemma demo_fs_1_facts:
  "wm_present (demo_fs 1)" "\<not> isCreatingWorkspace (demo_fs 1)" "1 \<in> pendingIsolation (demo_fs 1)"
  "fullscreen (win (demo_fs 1) 1)" "\<not> kiwi_isolated (win (demo_fs 1) 1)"
  "currentIndex_of (demo_fs 1) 1 = 0" "n_workspaces (demo_fs 1) = 3"
  "workspace (win (demo_fs 1) 1) = Some 0"
  by (simp_all add: demo_fs_def demo_def new_window_def currentIndex_of_def)

lemma demo_fs_2_facts:
  "wm_present (demo_fs 2)" "\<not> isCreatingWorkspace (demo_fs 2)" "2 \<in> pendingIsolation (demo_fs 2)"
  "fullscreen (win (demo_fs 2) 2)" "\<not> kiwi_isolated (win (demo_fs 2) 2)"
  "currentIndex_of (demo_fs 2) 2 = 1" "n_workspaces (demo_fs 2) = 3"
  "workspace (win (demo_fs 2) 2) = Some 1" "otherWindowsOnCurrent (demo_fs 2) 2 = 0"
  by (simp_all add: demo_fs_def demo_def new_window_def currentIndex_of_def
        otherWindowsOnCurrent_def filterWorkspaceRelevantWindows_def isWorkspacesOnlyOnPrimary_def
        list_windows_def)

theorem C5_witness:
  "workspace (win (isolationTimerFired (demo_fs 1) 1) 1) = Some 1
   \<and> workspace (win (isolationTimerFired (demo_fs 2) 2) 2) = Some 1"
  using C5_isolation_decision[of "demo_fs 1" 1] C5_isolation_decision[of "demo_fs 2" 2]
  by (simp add: demo_fs_1_facts demo_fs_2_facts MAX_WORKSPACES_def del: One_nat_def)

lemma demo_full_facts:
  "wm_present demo_full" "\<not> isCreatingWorkspace demo_full" "1 \<in> pendingIsolation demo_full"
  "fullscreen (win demo_full 1)" "\<not> kiwi_isolated (win demo_full 1)"
  "currentIndex_of demo_full 1 = 35" "n_workspaces demo_full = 36"
  "workspace (win demo_full 1) = Some 35" "workspace (win demo_full 2) = Some 35"
  "otherWindowsOnCurrent demo_full 1 = 1" "needs_new_workspace demo_full 1"
  by (simp_all add: demo_full_def demo_def new_window_def currentIndex_of_def
        otherWindowsOnCurrent_def filterWorkspaceRelevantWindows_def isWorkspacesOnlyOnPrimary_def
        list_windows_def needs_new_workspace_def)

lemma demo_full_timer: "isolationTimerFired demo_full 1 = demo_full\<lparr>pendingIsolation := {}\<rparr>"
proof -
  let ?s1 = "demo_full\<lparr>pendingIsolation := pendingIsolation demo_full - {1}\<rparr>"
  have p: "pendingIsolation demo_full - {1} = {}" by (simp add: demo_full_def del: One_nat_def)
  have "isolateFullscreenWindow ?s1 1 = ?s1"
    using demo_full_facts
    by (intro isolate_abort)
       (simp_all add: timer_removed_cong timer_removed_needs shouldMove_def canAppend_bypass
          MAX_WORKSPACES_def del: One_nat_def)
  then show ?thesis
    using demo_full_facts(3,4) by (simp add: isolationTimerFired_def Let_def p del: One_nat_def)
qed

text \<open>
  Claim C5 as stated fails at the ceiling: window 1 shares workspace 35 with
  window 2, its timer fires while it is fullscreen, and it is not moved.
\<close>

theorem C5_counterexample:
  "fullscreen (win demo_full 1) \<and> 1 \<in> pendingIsolation demo_full
   \<and> otherWindowsOnCurrent demo_full 1 = 1
   \<and> workspace (win demo_full 1) = Some 35
   \<and> workspace (win (isolationTimerFired demo_full 1) 1) = Some 35"
  by (simp add: demo_full_timer demo_full_facts del: One_nat_def)

theorem C2_witness:
  "n_workspaces (isolationTimerFired demo_full 1) = 36
   \<and> workspace (win (isolationTimerFired demo_full 1) 1) = Some 35
   \<and> workspace (win (isolationTimerFired demo_full 1) 2) = Some 35"
proof -
  note t = C2_ceiling_no_new_workspace[of demo_full 1]
  have h: "wm_present demo_full" "n_workspaces demo_full = MAX_WORKSPACES"
    "0 \<le> currentIndex_of demo_full 1"
    by (simp_all add: demo_full_facts MAX_WORKSPACES_def del: One_nat_def)
  from t[OF h] have a: "n_workspaces (isolationTimerFired demo_full 1) = n_workspaces demo_full"
    and b: "\<forall>x. workspace (win (isolationTimerFired demo_full 1) x) = workspace (win demo_full x)"
    using demo_full_facts(11) by blast+
  from a b[THEN spec, of 1] b[THEN spec, of 2] show ?thesis
    by (simp add: demo_full_facts del: One_nat_def)
qed

lemma demo_full_main_facts:
  "wm_present demo_full_main" "\<not> isCreatingWorkspace demo_full_main"
  "1 \<in> pendingIsolation demo_full_main"
  "fullscreen (win demo_full_main 1)" "\<not> kiwi_isolated (win demo_full_main 1)"
  "currentIndex_of demo_full_main 1 = 0" "n_workspaces demo_full_main = 36"
  "workspace (win demo_full_main 1) = Some 0"
  "relevant_windows demo_full_main 1 = []" "\<not> needs_new_workspace demo_full_main 1"
  by (simp_all add: demo_full_main_def demo_def new_window_def currentIndex_of_def
        relevant_windows_def filterWorkspaceRelevantWindows_def isWorkspacesOnlyOnPrimary_def
        list_windows_def needs_new_workspace_def del: One_nat_def)

text \<open>
  Claim C2 as stated fails: at the ceiling of 36 workspaces the fullscreen window
  on the main workspace is moved to the existing empty workspace 1.
\<close>

theorem C2_counterexample:
  "n_workspaces demo_full_main = MAX_WORKSPACES
   \<and> workspace (win demo_full_main 1) = Some 0
   \<and> workspace (win (isolationTimerFired demo_full_main 1) 1) = Some 1
   \<and> n_workspaces (isolationTimerFired demo_full_main 1) = 36"
proof -
  let ?s1 = "demo_full_main\<lparr>pendingIsolation := pendingIsolation demo_full_main - {1}\<rparr>"
  have t: "isolationTimerFired demo_full_main 1 = isolateFullscreenWindow ?s1 1"
    using demo_full_main_facts(3,4) by (simp add: isolationTimerFired_def Let_def del: One_nat_def)
  have "workspace (win (isolateFullscreenWindow ?s1 1) 1) = Some (currentIndex_of ?s1 1 + 1)"
    using demo_full_main_facts
    by (intro isolate_move)
       (simp_all add: timer_removed_cong timer_removed_needs shouldMove_def del: One_nat_def)
  moreover have "n_workspaces (isolateFullscreenWindow ?s1 1) = n_workspaces ?s1"
    using isolate_fields(4)[of ?s1 1] by (simp add: demo_full_main_facts MAX_WORKSPACES_def del: One_nat_def)
  ultimately show ?thesis
    unfolding t by (simp add: demo_full_main_facts timer_removed_cong MAX_WORKSPACES_def del: One_nat_def)
qed

section \<open>Fullscreen toggles and pending timers\<close>

text \<open>
  What a toggle does to the timers of its window. Leaving fullscreen cancels the
  pending isolation, and \<open>_restoreWindowFromFullscreen\<close> cancels a pending restore
  before it schedules the new one. Entering fullscreen only schedules the
  isolation: the table of pending restores is left as it is.
\<close>

lemma exit_cancels_isolation:
  "\<not> fullscreen (win s w) \<Longrightarrow> w \<notin> pendingIsolation (onWindowFullscreenChanged s w)"
  by (simp add: onWindowFullscreenChanged_def restoreWindowFromFullscreen_def Let_def
        split: option.split)

lemma enter_keeps_restore:
  "fullscreen (win s w) \<Longrightarrow>
   pendingRestore (onWindowFullscreenChanged s w) = pendingRestore s"
  by (simp add: onWindowFullscreenChanged_def scheduleIsolation_def captureOriginalWorkspace_def
        Let_def)

text \<open>
  Claim C6 fails on the code for a fullscreen-enter. Window 3 of \<open>demo_iso\<close> leaves
  fullscreen, which schedules its restore with the original index 2 and the
  isolation index 3, and enters fullscreen again before the restore fires: the
  isolation is scheduled and the restore is still pending. The restore then fires
  first and clears the recorded original workspace; the isolation fires; and when
  the window leaves fullscreen once more it is sent to the main workspace instead
  of workspace 2, where it came from. Had the first restore fired before the
  second fullscreen-enter, the window would have returned to workspace 2.
\<close>

theorem C6_enter_keeps_pending_restore:
  "pendingRestore (run [FullscreenChanged 3 False] demo_iso) 3 = Some (Some 2, Some 3)
   \<and> pendingRestore (run [FullscreenChanged 3 False, FullscreenChanged 3 True] demo_iso) 3
       = Some (Some 2, Some 3)
   \<and> 3 \<in> pendingIsolation (run [FullscreenChanged 3 False, FullscreenChanged 3 True] demo_iso)
   \<and> workspace (win (run [FullscreenChanged 3 False, FullscreenChanged 3 True, RestoreTimer 3,
                           IsolationTimer 3, FullscreenChanged 3 False, RestoreTimer 3] demo_iso) 3)
       = Some 0
   \<and> workspace (win (run [FullscreenChanged 3 False, RestoreTimer 3, FullscreenChanged 3 True,
                           IsolationTimer 3, FullscreenChanged 3 False, RestoreTimer 3] demo_iso) 3)
       = Some 2"
  by code_simp

section \<open>Appending workspaces: the ceiling and the configured count\<close>

lemma ensure_appends_trailing:
  assumes "wm_present s" and "\<not> isCreatingWorkspace s" and "MIN_WORKSPACES \<le> n_workspaces s"
    and "n_workspaces s < MAX_WORKSPACES"
    and "findLastOccupiedWorkspaceIndex s = n_workspaces s - 1"
  shows "n_workspaces (ensureEmptyWorkspaceAtEnd s) = n_workspaces s + 1"
  using assms
  by (simp add: ensureEmptyWorkspaceAtEnd_def Let_def ensure_min_loop_id canAppend_bypass
        KEEP_EMPTY_WORKSPACE_AT_END_def MIN_WORKSPACES_def)

lemma isolate_appends_target:
  assumes "wm_present s" and "\<not> isCreatingWorkspace s" and "\<not> kiwi_isolated (win s w)"
    and "shouldMove s w" and "n_workspaces s < MAX_WORKSPACES"
    and "currentIndex_of s w + 1 = n_workspaces s"
  shows "n_workspaces s + 1 \<le> n_workspaces (isolateFullscreenWindow s w)"
proof -
  have "isolateFullscreenWindow s w =
          finishIsolation (append_guarded s) w (currentIndex_of s w) (n_workspaces s)"
    using assms
    by (simp add: isolateFullscreenWindow_def Let_def findTarget_beyond canAppend_bypass
          del: append_guarded_eq)
  then show ?thesis
    using finishIsolation_fields(1)[of "append_guarded s" w "currentIndex_of s w" "n_workspaces s"]
    by simp
qed

lemma demo_fixed_facts:
  "wm_present demo_fixed" "\<not> isDynamicWorkspaceMode demo_fixed"
  "wmPreferences demo_fixed = Some (Returns 2)" "\<not> isCreatingWorkspace demo_fixed"
  "n_workspaces demo_fixed = 2" "findLastOccupiedWorkspaceIndex demo_fixed = 1"
  "\<not> kiwi_isolated (win demo_fixed 2)" "shouldMove demo_fixed 2"
  "currentIndex_of demo_fixed 2 = 1"
  by code_simp+

text \<open>
  Claim C9. In fixed-workspace mode (the host's \<open>num-workspaces\<close> readable as
  \<open>numWorkspaces\<close>), the check made before every append the manager performs for
  isolation and for the minimum and trailing workspaces, \<open>_canAppendWorkspace(true)\<close>,
  does not look at \<open>numWorkspaces\<close>: it allows the append exactly when the count is
  below the ceiling of 36. The check without the bypass, \<open>_canAppendWorkspace(false)\<close>,
  refuses in addition as soon as the count has reached \<open>numWorkspaces\<close>. So, whatever
  \<open>numWorkspaces\<close> is, below the ceiling the trailing-workspace check appends a
  workspace when the last workspace is occupied, and the isolation of a window that
  must leave the last workspace appends its target workspace.
\<close>

theorem C9_canAppend_bypass:
  assumes "wm_present s" and "\<not> isDynamicWorkspaceMode s"
    and "wmPreferences s = Some (Returns numWorkspaces)" and "\<not> isCreatingWorkspace s"
  shows "canAppendWorkspace True s = (n_workspaces s < MAX_WORKSPACES)
       \<and> canAppendWorkspace False s =
           (n_workspaces s < MAX_WORKSPACES \<and> n_workspaces s < numWorkspaces)
       \<and> (MIN_WORKSPACES \<le> n_workspaces s \<and> n_workspaces s < MAX_WORKSPACES
            \<and> findLastOccupiedWorkspaceIndex s = n_workspaces s - 1
          \<longrightarrow> n_workspaces (ensureEmptyWorkspaceAtEnd s) = n_workspaces s + 1)
       \<and> (\<not> kiwi_isolated (win s w) \<and> shouldMove s w \<and> n_workspaces s < MAX_WORKSPACES
            \<and> currentIndex_of s w + 1 = n_workspaces s
          \<longrightarrow> n_workspaces s + 1 \<le> n_workspaces (isolateFullscreenWindow s w))"
proof (intro conjI impI)
  show "canAppendWorkspace True s = (n_workspaces s < MAX_WORKSPACES)"
    using assms by (simp add: canAppend_bypass)
  show "canAppendWorkspace False s =
           (n_workspaces s < MAX_WORKSPACES \<and> n_workspaces s < numWorkspaces)"
    using assms by (auto simp: canAppendWorkspace_def getMaxAllowedWorkspaces_def)
next
  assume "MIN_WORKSPACES \<le> n_workspaces s \<and> n_workspaces s < MAX_WORKSPACES
            \<and> findLastOccupiedWorkspaceIndex s = n_workspaces s - 1"
  then show "n_workspaces (ensureEmptyWorkspaceAtEnd s) = n_workspaces s + 1"
    using assms(1,4) by (intro ensure_appends_trailing) simp_all
next
  assume "\<not> kiwi_isolated (win s w) \<and> shouldMove s w \<and> n_workspaces s < MAX_WORKSPACES
            \<and> currentIndex_of s w + 1 = n_workspaces s"
  then show "n_workspaces s + 1 \<le> n_workspaces (isolateFullscreenWindow s w)"
    using assms(1,4) by (intro isolate_appends_target) simp_all
qed

theorem C9_witness:
  "canAppendWorkspace True demo_fixed \<and> \<not> canAppendWorkspace False demo_fixed
   \<and> n_workspaces (ensureEmptyWorkspaceAtEnd demo_fixed) = 3
   \<and> 3 \<le> n_workspaces (isolateFullscreenWindow demo_fixed 2)"
  using C9_canAppend_bypass[OF demo_fixed_facts(1,2,3,4), of 2]
  by (simp add: demo_fixed_facts MAX_WORKSPACES_def MIN_WORKSPACES_def)

section \<open>The main workspace is never an isolation target\<close>

text \<open>
  An invariant of the event loop: the keys of the fullscreen map stay positive, as
  long as the host keeps at least one workspace and no window has a negative
  workspace index.
\<close>

lemma no_main_target_iff:
  "no_main_target s \<longleftrightarrow> (\<forall>k \<in> fst ` set (fullscreenWorkspaces s). 0 < k)"
  by (auto simp: no_main_target_def list_all_iff)

lemma no_main_target_lookup: "no_main_target s \<Longrightarrow> map_of (fullscreenWorkspaces s) 0 = None"
  by (auto simp: no_main_target_iff map_of_eq_None_iff)

lemma targets_ok_update:
  assumes "targets_ok s" and "0 < k"
  shows "targets_ok (s\<lparr>fullscreenWorkspaces := AList.update k w (fullscreenWorkspaces s)\<rparr>)"
  using assms by (auto simp: targets_ok_def host_sane_def no_main_target_iff AList.dom_update)

lemma targets_ok_delete:
  assumes "targets_ok s"
  shows "targets_ok (s\<lparr>fullscreenWorkspaces := AList.delete k (fullscreenWorkspaces s)\<rparr>)"
proof -
  have "set (AList.delete k (fullscreenWorkspaces s)) \<subseteq> set (fullscreenWorkspaces s)"
    by (auto simp: AList.delete_eq)
  then show ?thesis
    using assms by (auto simp: targets_ok_def host_sane_def no_main_target_iff)
qed

lemma targets_ok_kiwi:
  assumes "targets_ok s" and "\<And>r. workspace (f r) = workspace r"
  shows "targets_ok (upd_win s w f)"
  using assms by (auto simp: targets_ok_def host_sane_def no_main_target_iff)

lemma targets_ok_change_workspace:
  assumes "targets_ok s" and "0 \<le> i"
  shows "targets_ok (change_workspace s w i)"
  using assms by (auto simp: targets_ok_def host_sane_def no_main_target_iff)

lemma targets_ok_frame:
  assumes "targets_ok s" and "win s' = win s" and "fullscreenWorkspaces s' = fullscreenWorkspaces s"
    and "n_workspaces s \<le> n_workspaces s'"
  shows "targets_ok s'"
  using assms by (auto simp: targets_ok_def host_sane_def no_main_target_iff)

lemma targets_ok_shift_window:
  assumes "targets_ok s" and "0 \<le> i" and "0 \<le> t"
  shows "targets_ok (shift_window i t x s)"
proof -
  let ?s1 = "change_workspace s x t"
  have a: "targets_ok ?s1" by (rule targets_ok_change_workspace[OF assms(1,3)])
  let ?s2 = "upd_win ?s1 x (\<lambda>r. r\<lparr>kiwi_fullscreenWorkspaceIndex := Some (i + 1)\<rparr>)"
  have b: "targets_ok ?s2" by (rule targets_ok_kiwi[OF a]) simp
  let ?s3 = "?s2\<lparr>fullscreenWorkspaces := AList.delete i (fullscreenWorkspaces ?s2)\<rparr>"
  have c: "targets_ok ?s3" by (rule targets_ok_delete[OF b])
  have d: "targets_ok (?s3\<lparr>fullscreenWorkspaces := AList.update (i + 1) x (fullscreenWorkspaces ?s3)\<rparr>)"
    using assms(2) by (intro targets_ok_update[OF c]) simp
  have "shift_window i t x s =
      (if kiwi_fullscreenWorkspaceIndex (win ?s1 x) = Some i
       then ?s3\<lparr>fullscreenWorkspaces := AList.update (i + 1) x (fullscreenWorkspaces ?s3)\<rparr>
       else ?s1)"
    unfolding shift_window_def Let_def by (rule refl)
  then show ?thesis using a d by simp
qed

lemma targets_ok_fold_shift_window:
  "targets_ok s \<Longrightarrow> 0 \<le> i \<Longrightarrow> 0 \<le> t \<Longrightarrow> targets_ok (fold (shift_window i t) xs s)"
  by (induction xs arbitrary: s) (simp_all add: targets_ok_shift_window)

lemma targets_ok_shift_workspace: "targets_ok s \<Longrightarrow> targets_ok (shift_workspace s i)"
  by (auto simp: shift_workspace_def Let_def get_workspace_by_index_def
      intro!: targets_ok_fold_shift_window split: option.split if_splits)

lemma targets_ok_shift_loop: "targets_ok s \<Longrightarrow> targets_ok (shift_loop s lo k)"
  by (induction k arbitrary: s) (simp_all add: targets_ok_shift_workspace)

lemma targets_ok_append: "targets_ok s \<Longrightarrow> targets_ok (append_guarded s)"
  using targets_ok_frame[of s "append_guarded s"] by simp

lemma targets_ok_ensure: "targets_ok s \<Longrightarrow> targets_ok (ensureEmptyWorkspaceAtEnd s)"
  using targets_ok_frame[of s "ensureEmptyWorkspaceAtEnd s"] by (simp add: ensure_count_mono)

lemma targets_ok_shiftOccupied:
  "targets_ok s \<Longrightarrow> shiftOccupiedTarget s d = Some s1 \<Longrightarrow> targets_ok s1"
  using shiftOccupiedTarget_cases[of s d s1] targets_ok_append[of s]
  by (auto simp: targets_ok_shift_loop simp del: append_guarded_eq)

lemma targets_ok_findTarget:
  assumes "targets_ok s" and "findTargetWorkspace s d = Some (s1, t)"
  shows "targets_ok s1" "\<And>tw. t = Some tw \<Longrightarrow> tw = d \<and> 0 \<le> d"
  using assms findTargetWorkspace_cases[OF assms(2)] targets_ok_shiftOccupied[of s d s1]
  by (auto simp: findTargetWorkspace_def get_workspace_by_index_def
      split: if_splits option.splits)

lemma targets_ok_finishIsolation:
  assumes "targets_ok s" and "0 < t"
  shows "targets_ok (finishIsolation s w c t)"
proof -
  let ?s1 = "change_workspace s w t"
  have a: "targets_ok ?s1" using assms by (intro targets_ok_change_workspace) simp_all
  let ?s2 = "activate ?s1 t"
  have b: "targets_ok ?s2" using targets_ok_frame[OF a, of ?s2] by simp
  let ?s3 = "upd_win ?s2 w (\<lambda>r. r\<lparr>kiwi_isolated := True, kiwi_fullscreenWorkspaceIndex := Some t\<rparr>)"
  have c: "targets_ok ?s3" by (rule targets_ok_kiwi[OF b]) simp
  let ?s4 = "?s3\<lparr>fullscreenWorkspaces := AList.update t w (fullscreenWorkspaces ?s3)\<rparr>"
  have d: "targets_ok ?s4" by (rule targets_ok_update[OF c assms(2)])
  let ?s6 = "if c > 0 then scheduleWorkspaceCleanup (cancelWorkspaceCleanup ?s4 t) c
             else cancelWorkspaceCleanup ?s4 t"
  have e: "targets_ok ?s6" using targets_ok_frame[OF d, of ?s6] by simp
  have "finishIsolation s w c t = ensureEmptyWorkspaceAtEnd ?s6"
    unfolding finishIsolation_def Let_def by (rule refl)
  then show ?thesis using targets_ok_ensure[OF e] by simp
qed

lemma currentIndex_nonneg: "targets_ok s \<Longrightarrow> 0 \<le> currentIndex_of s w"
  by (auto simp: targets_ok_def host_sane_def currentIndex_of_def split: option.split)

lemma targets_ok_isolate:
  assumes "targets_ok s"
  shows "targets_ok (isolateFullscreenWindow s w)"
proof (cases "\<not> wm_present s \<or> kiwi_isolated (win s w)")
  case True
  then show ?thesis using assms by (auto simp: isolateFullscreenWindow_def)
next
  case a: False
  let ?c = "currentIndex_of s w"
  have c0: "0 \<le> ?c" by (rule currentIndex_nonneg[OF assms])
  show ?thesis
  proof (cases "shouldMove s w")
    case False
    then have cp: "0 < ?c" using c0 by (simp add: shouldMove_def)
    let ?s1 = "upd_win s w (\<lambda>r. r\<lparr>kiwi_isolated := True,
                     kiwi_fullscreenWorkspaceIndex := Some ?c\<rparr>)"
    have s1: "targets_ok ?s1" by (rule targets_ok_kiwi[OF assms]) simp
    have s2: "targets_ok (?s1\<lparr>fullscreenWorkspaces := AList.update ?c w (fullscreenWorkspaces ?s1)\<rparr>)"
      by (rule targets_ok_update[OF s1 cp])
    have "isolateFullscreenWindow s w = ensureEmptyWorkspaceAtEnd
            (?s1\<lparr>fullscreenWorkspaces := AList.update ?c w (fullscreenWorkspaces ?s1)\<rparr>)"
      using a False by (simp add: isolateFullscreenWindow_def Let_def)
    then show ?thesis using targets_ok_ensure[OF s2] by simp
  next
    case True
    have iso: "isolateFullscreenWindow s w =
      (case findTargetWorkspace s (?c + 1) of
         None \<Rightarrow> s
       | Some (s1, Some targetWs) \<Rightarrow> finishIsolation s1 w ?c targetWs
       | Some (s1, None) \<Rightarrow>
           if canAppendWorkspace True s1
           then finishIsolation (append_guarded s1) w ?c (n_workspaces s1)
           else s1)"
      using a True by (simp add: isolateFullscreenWindow_def Let_def)
    show ?thesis
    proof (cases "findTargetWorkspace s (?c + 1)")
      case None
      then show ?thesis using assms by (simp add: iso)
    next
      case (Some p)
      obtain s1 t where p: "p = (s1, t)" by (cases p)
      have f: "findTargetWorkspace s (?c + 1) = Some (s1, t)" using Some p by simp
      have ok1: "targets_ok s1" by (rule targets_ok_findTarget(1)[OF assms f])
      show ?thesis
      proof (cases t)
        case None
        have n1: "0 < n_workspaces s1" using ok1 by (simp add: targets_ok_def host_sane_def)
        have "targets_ok (finishIsolation (append_guarded s1) w ?c (n_workspaces s1))"
          by (rule targets_ok_finishIsolation[OF targets_ok_append[OF ok1] n1])
        then show ?thesis using ok1 by (simp add: iso f None del: append_guarded_eq)
      next
        case (Some tw)
        then have "tw = ?c + 1" using targets_ok_findTarget(2)[OF assms f] by simp
        then have "0 < tw" using c0 by simp
        then show ?thesis
          using targets_ok_finishIsolation[OF ok1] by (simp add: iso f Some)
      qed
    qed
  qed
qed

lemma keys_update:
  "(\<forall>x \<in> set (AList.update a b m). P (fst x)) \<longleftrightarrow> P a \<and> (\<forall>x \<in> set m. P (fst x))"
proof -
  have "(\<forall>x \<in> set (AList.update a b m). P (fst x))
          \<longleftrightarrow> (\<forall>k \<in> fst ` set (AList.update a b m). P k)"
    by (simp only: ball_simps)
  also have "\<dots> \<longleftrightarrow> (\<forall>k \<in> {a} \<union> fst ` set m. P k)"
    by (simp only: AList.dom_update)
  also have "\<dots> \<longleftrightarrow> P a \<and> (\<forall>x \<in> set m. P (fst x))"
    by simp
  finally show ?thesis .
qed

lemma shift_entry_keys:
  assumes "1 \<le> r" and "0 < fst e" and "\<forall>k \<in> fst ` set m. 0 < k"
  shows "\<forall>k \<in> fst ` set (fst (shift_entry r e (m, s))). 0 < k"
proof -
  obtain idx w where e: "e = (idx, w)" by (cases e)
  have "fst (shift_entry r e (m, s)) =
          (if idx > r then AList.update (idx - 1) w m
           else if idx < r then AList.update idx w m else m)"
    by (simp add: e shift_entry_def Let_def)
  then show ?thesis
    using assms by (simp add: e keys_update)
qed

lemma shift_entry_workspace:
  "workspace (win (snd (shift_entry r e (m, s))) x) = workspace (win s x)"
  by (cases e) (simp add: shift_entry_def Let_def upd_win_def)

lemma shift_entries_keys:
  "1 \<le> r \<Longrightarrow> \<forall>k \<in> fst ` set es. 0 < k \<Longrightarrow> \<forall>k \<in> fst ` set m. 0 < k \<Longrightarrow>
   (\<forall>k \<in> fst ` set (fst (fold (shift_entry r) es (m, s))). 0 < k)
   \<and> (\<forall>x. workspace (win (snd (fold (shift_entry r) es (m, s))) x) = workspace (win s x))"
proof (induction es arbitrary: m s)
  case Nil
  then show ?case by simp
next
  case (Cons e es)
  obtain m' s' where se: "shift_entry r e (m, s) = (m', s')"
    by (cases "shift_entry r e (m, s)")
  have k: "\<forall>k \<in> fst ` set m'. 0 < k"
    using shift_entry_keys[OF Cons.prems(1), of e m s] Cons.prems(2,3) by (simp add: se)
  have w: "\<And>x. workspace (win s' x) = workspace (win s x)"
    using shift_entry_workspace[of r e m s] by (simp add: se)
  have es: "\<forall>k \<in> fst ` set es. 0 < k" using Cons.prems(2) by simp
  show ?case
    using Cons.IH[OF Cons.prems(1) es k, of s'] w by (simp add: se)
qed

lemma shift_original_workspace:
  "workspace (win (shift_original r w s) x) = workspace (win s x)"
  "fullscreenWorkspaces (shift_original r w s) = fullscreenWorkspaces s"
  by (simp_all add: shift_original_def upd_win_def split: option.split)

lemma shift_originals_workspace:
  "(\<forall>x. workspace (win (fold (shift_original r) ws s) x) = workspace (win s x))
   \<and> fullscreenWorkspaces (fold (shift_original r) ws s) = fullscreenWorkspaces s"
  by (induction ws arbitrary: s) (simp_all add: shift_original_workspace)

lemma targets_ok_shift_indices:
  assumes "targets_ok s" and "1 \<le> r"
  shows "targets_ok (shiftFullscreenIndicesAfterRemove s r)"
proof -
  obtain newMap s1 where f: "fold (shift_entry r) (fullscreenWorkspaces s) ([], s) = (newMap, s1)"
    by (cases "fold (shift_entry r) (fullscreenWorkspaces s) ([], s)")
  have ks: "\<forall>k \<in> fst ` set (fullscreenWorkspaces s). 0 < k"
    using assms(1) by (simp add: targets_ok_def no_main_target_iff)
  have k: "\<forall>k \<in> fst ` set newMap. 0 < k"
    and w: "\<And>x. workspace (win s1 x) = workspace (win s x)"
    using shift_entries_keys[OF assms(2) ks, of "[]" s] by (simp_all add: f)
  have e: "shiftFullscreenIndicesAfterRemove s r =
          fold (shift_original r) (windowSignals s1) (s1\<lparr>fullscreenWorkspaces := newMap\<rparr>)"
    by (simp add: shiftFullscreenIndicesAfterRemove_def f Let_def)
  have n: "n_workspaces (shiftFullscreenIndicesAfterRemove s r) = n_workspaces s"
    by (simp add: move_frameD[OF shiftFullscreenIndicesAfterRemove_frame])
  show ?thesis
    using assms(1) k w n
      shift_originals_workspace[of r "windowSignals s1" "s1\<lparr>fullscreenWorkspaces := newMap\<rparr>"]
    unfolding e
    by (simp add: targets_ok_def host_sane_def no_main_target_iff)
qed

lemma remove_workspace_workspace:
  assumes "1 \<le> i" and "i < n_workspaces s"
  shows "workspace (win (remove_workspace s i) w) =
           map_option (\<lambda>k. if k \<ge> i then k - 1 else k) (workspace (win s w))"
  using assms
  by (cases "workspace (win s w)") (auto simp: remove_workspace_def Let_def)

lemma targets_ok_remove_and_shift:
  assumes "targets_ok s" and "1 \<le> i" and "i < n_workspaces s"
  shows "targets_ok (remove_and_shift s i)"
proof -
  let ?s1 = "s\<lparr>fullscreenWorkspaces := AList.delete i (fullscreenWorkspaces s)\<rparr>"
  have a: "targets_ok ?s1" by (rule targets_ok_delete[OF assms(1)])
  have n2: "2 \<le> n_workspaces s" using assms(2,3) by simp
  have b: "targets_ok (remove_workspace ?s1 i)"
    using a assms(2,3) n2
    by (auto simp: targets_ok_def host_sane_def no_main_target_iff remove_workspace_fields
          remove_workspace_workspace)
  show ?thesis
    using targets_ok_shift_indices[OF b assms(2)] by (simp add: remove_and_shift_def Let_def)
qed

lemma targets_ok_cleanupWorkspaceIfEmpty:
  assumes "targets_ok s"
  shows "targets_ok (cleanupWorkspaceIfEmpty s i)"
proof -
  have "cleanupWorkspaceIfEmpty s i = s
      \<or> cleanupWorkspaceIfEmpty s i = ensureEmptyWorkspaceAtEnd s
      \<or> (0 < i \<and> i < n_workspaces s
         \<and> cleanupWorkspaceIfEmpty s i = ensureEmptyWorkspaceAtEnd (remove_and_shift s i))"
    by (auto simp: cleanupWorkspaceIfEmpty_def Let_def split: option.split)
  then show ?thesis
    using assms targets_ok_ensure[OF assms]
      targets_ok_ensure[OF targets_ok_remove_and_shift[OF assms, of i]]
    by auto
qed

lemma targets_ok_cleanup_all_loop:
  "targets_ok s \<Longrightarrow> targets_ok (cleanup_all_loop s xs)"
proof (induction xs arbitrary: s)
  case Nil
  then show ?case by simp
next
  case (Cons idx rest)
  show ?case
  proof (cases "0 < idx \<and> idx < n_workspaces s")
    case True
    then have "targets_ok (remove_and_shift s idx)"
      using targets_ok_remove_and_shift[OF Cons.prems, of idx] by simp
    then show ?thesis
      using Cons.IH[of s] Cons.IH[of "remove_and_shift s idx"] Cons.prems
      by (auto split: option.split)
  next
    case False
    then show ?thesis
      using Cons.IH[of s] Cons.prems by (auto split: option.split)
  qed
qed

lemma targets_ok_cleanupAll:
  assumes "targets_ok s"
  shows "targets_ok (cleanupAllEmptyWorkspaces s)"
proof -
  have "cleanupAllEmptyWorkspaces s = s
      \<or> (\<exists>xs. cleanupAllEmptyWorkspaces s = ensureEmptyWorkspaceAtEnd (cleanup_all_loop s xs))"
    by (auto simp: cleanupAllEmptyWorkspaces_def Let_def)
  then show ?thesis
    using assms targets_ok_ensure[OF targets_ok_cleanup_all_loop[OF assms]] by auto
qed

lemma targets_ok_pending:
  assumes "targets_ok s"
  shows "targets_ok (s\<lparr>pendingCleanup := a\<rparr>)" "targets_ok (s\<lparr>pendingIsolation := b\<rparr>)"
    "targets_ok (s\<lparr>pendingRestore := c\<rparr>)" "targets_ok (s\<lparr>pendingWindowCreated := d\<rparr>)"
    "targets_ok (s\<lparr>pendingWindowUnmanaged := e\<rparr>)" "targets_ok (s\<lparr>checkWorkspacesId := f\<rparr>)"
    "targets_ok (s\<lparr>windowSignals := g\<rparr>)"
  using assms by (simp_all add: targets_ok_def host_sane_def no_main_target_def)

lemma targets_ok_cleanupTimerFired: "targets_ok s \<Longrightarrow> targets_ok (cleanupTimerFired s key)"
  using targets_ok_cleanupWorkspaceIfEmpty[OF targets_ok_pending(1)]
    targets_ok_cleanupAll[OF targets_ok_pending(1)]
  by (simp add: cleanupTimerFired_def Let_def split: option.split cleanup_task.split)

lemma targets_ok_activate: "targets_ok s \<Longrightarrow> targets_ok (activate s i)"
  using targets_ok_frame[of s "activate s i"] by simp

lemma targets_ok_capture: "targets_ok s \<Longrightarrow> targets_ok (captureOriginalWorkspace s w)"
  by (simp add: captureOriginalWorkspace_def targets_ok_kiwi)

lemma targets_ok_scheduleIsolation: "targets_ok s \<Longrightarrow> targets_ok (scheduleIsolation s w)"
  by (simp add: scheduleIsolation_def Let_def targets_ok_capture targets_ok_pending)

lemma targets_ok_restoreWindow: "targets_ok s \<Longrightarrow> targets_ok (restoreWindowFromFullscreen s w)"
proof -
  assume a: "targets_ok s"
  let ?s1 = "cancelPendingRestore s w"
  have s1: "targets_ok ?s1" using a by (simp add: targets_ok_pending)
  let ?s2 = "upd_win ?s1 w (\<lambda>r. r\<lparr>kiwi_isolated := False, kiwi_fullscreenWorkspaceIndex := None\<rparr>)"
  have s2: "targets_ok ?s2" by (rule targets_ok_kiwi[OF s1]) simp
  let ?s3 = "case kiwi_fullscreenWorkspaceIndex (win ?s1 w) of
               Some f \<Rightarrow> ?s2\<lparr>fullscreenWorkspaces := AList.delete f (fullscreenWorkspaces ?s2)\<rparr>
             | None \<Rightarrow> ?s2"
  have s3: "targets_ok ?s3" using s2 targets_ok_delete[OF s2] by (simp split: option.split)
  have "restoreWindowFromFullscreen s w =
     (if \<not> kiwi_isolated (win s w) then s
      else ?s3\<lparr>pendingRestore := (pendingRestore ?s3)
              (w \<mapsto> (kiwi_originalWorkspaceIndex (win ?s1 w), kiwi_fullscreenWorkspaceIndex (win ?s1 w)))\<rparr>)"
    unfolding restoreWindowFromFullscreen_def Let_def by (rule refl)
  then show ?thesis using a targets_ok_pending(3)[OF s3] by simp
qed

lemma targets_ok_onFullscreenChanged:
  "targets_ok s \<Longrightarrow> targets_ok (onWindowFullscreenChanged s w)"
  by (simp add: onWindowFullscreenChanged_def targets_ok_scheduleIsolation
        targets_ok_restoreWindow targets_ok_pending)

lemma targets_ok_connect: "targets_ok s \<Longrightarrow> targets_ok (connectWindowSignals s w)"
  by (simp add: connectWindowSignals_def Let_def targets_ok_onFullscreenChanged
        targets_ok_capture targets_ok_pending)

lemma targets_ok_onWindowCreated: "targets_ok s \<Longrightarrow> targets_ok (onWindowCreated s w)"
  by (simp add: onWindowCreated_def Let_def targets_ok_connect targets_ok_pending)

lemma targets_ok_onWindowUnmanaged: "targets_ok s \<Longrightarrow> targets_ok (onWindowUnmanaged s w)"
  by (simp add: onWindowUnmanaged_eq targets_ok_def host_sane_def no_main_target_def)

lemma targets_ok_executeRestore:
  assumes "targets_ok s"
  shows "targets_ok (executeWindowRestore s w oi fi)"
proof -
  let ?t = "case oi of Some orig \<Rightarrow> if orig \<ge> 0 then min orig (max 0 (n_workspaces s - 1)) else 0
            | None \<Rightarrow> 0"
  let ?s1 = "case get_workspace_by_index s ?t of
               Some targetWs \<Rightarrow> activate (change_workspace s w targetWs) targetWs
             | None \<Rightarrow> s"
  have s1: "targets_ok ?s1"
    using assms
    by (auto simp: get_workspace_by_index_def split: option.split
        intro!: targets_ok_activate targets_ok_change_workspace)
  let ?s2 = "upd_win ?s1 w (\<lambda>r. r\<lparr>kiwi_originalWorkspaceIndex := None\<rparr>)"
  have s2: "targets_ok ?s2" by (rule targets_ok_kiwi[OF s1]) simp
  have "executeWindowRestore s w oi fi =
     (if \<not> wm_present s then s
      else case fi of Some f \<Rightarrow> if f > 0 then scheduleWorkspaceCleanup ?s2 f else ?s2
           | None \<Rightarrow> ?s2)"
    unfolding executeWindowRestore_def Let_def by (rule refl)
  then show ?thesis
    using assms s2 targets_ok_pending(1)[OF s2] by (simp split: option.split)
qed

lemma targets_ok_restoreTimer: "targets_ok s \<Longrightarrow> targets_ok (restoreTimerFired s w)"
  by (simp add: restoreTimerFired_def targets_ok_executeRestore targets_ok_pending
        split: option.split)

lemma targets_ok_deferred:
  assumes "targets_ok s"
  shows "targets_ok (windowUnmanagedDeferred s oi fi wi)"
proof -
  let ?s1 = "case oi of
               Some orig \<Rightarrow>
                 if orig \<ge> 0 \<and> orig < n_workspaces s then
                   (case get_workspace_by_index s orig of
                      Some ws \<Rightarrow> if \<not> active_index s = ws then activate s ws else s
                    | None \<Rightarrow> s)
                 else s
             | None \<Rightarrow> s"
  have s1: "targets_ok ?s1"
    using assms by (simp add: targets_ok_activate split: option.split)
  let ?s2 = "case fi of
               Some f \<Rightarrow> ?s1\<lparr>fullscreenWorkspaces := AList.delete f (fullscreenWorkspaces ?s1)\<rparr>
             | None \<Rightarrow> ?s1"
  have s2: "targets_ok ?s2" using s1 targets_ok_delete[OF s1] by (simp split: option.split)
  have "windowUnmanagedDeferred s oi fi wi =
     (if \<not> wm_present s then s
      else case (case fi of Some f \<Rightarrow> Some f | None \<Rightarrow> wi) of
              Some c \<Rightarrow> if c > 0 then scheduleWorkspaceCleanup ?s2 c else ?s2
            | None \<Rightarrow> ?s2)"
    unfolding windowUnmanagedDeferred_def Let_def by (rule refl)
  then show ?thesis
    using assms s2 targets_ok_pending(1)[OF s2] by (simp split: option.split)
qed

lemma targets_ok_unmanagedIdle: "targets_ok s \<Longrightarrow> targets_ok (windowUnmanagedIdle s w)"
  by (simp add: windowUnmanagedIdle_def targets_ok_deferred targets_ok_pending
        split: option.split)

lemma targets_ok_redirect:
  "targets_ok s \<Longrightarrow> targets_ok (redirectWindowFromFullscreenWorkspace s w)"
  by (auto simp: redirectWindowFromFullscreenWorkspace_def getMainWorkspace_def
        get_workspace_by_index_def split: option.split if_splits
        intro!: targets_ok_kiwi targets_ok_change_workspace)

lemma targets_ok_createdIdle: "targets_ok s \<Longrightarrow> targets_ok (windowCreatedIdle s w)"
  by (simp add: windowCreatedIdle_def Let_def targets_ok_ensure targets_ok_redirect
        targets_ok_pending)

lemma targets_ok_isolationTimer: "targets_ok s \<Longrightarrow> targets_ok (isolationTimerFired s w)"
  by (simp add: isolationTimerFired_def Let_def targets_ok_isolate targets_ok_pending)

lemma targets_ok_step: "targets_ok s \<Longrightarrow> targets_ok (step e s)"
proof (cases e)
  case (WindowCreated w sk fs prim i)
  assume a: "targets_ok s"
  have "0 \<le> i \<Longrightarrow> targets_ok (s\<lparr>managed := managed s @ [w],
                          win := (win s)(w := new_window sk fs prim i)\<rparr>)"
    using a by (auto simp: targets_ok_def host_sane_def no_main_target_def new_window_def)
  then show ?thesis
    using a WindowCreated by (auto intro!: targets_ok_onWindowCreated)
next
  case (FullscreenChanged w b)
  assume a: "targets_ok s"
  have "targets_ok (upd_win s w (\<lambda>r. r\<lparr>fullscreen := b\<rparr>))"
    by (rule targets_ok_kiwi[OF a]) simp
  then show ?thesis
    using a FullscreenChanged by (simp add: Let_def targets_ok_onFullscreenChanged)
next
  case (WindowUnmanaged w)
  assume a: "targets_ok s"
  have "targets_ok s1 \<Longrightarrow>
        targets_ok ((upd_win s1 w (\<lambda>r. r\<lparr>workspace := None\<rparr>))
                      \<lparr>managed := m, destroyed := d\<rparr>)" for s1 m d
    by (auto simp: targets_ok_def host_sane_def no_main_target_def)
  then show ?thesis
    using a WindowUnmanaged targets_ok_onWindowUnmanaged[OF a, of w]
    by (simp add: Let_def)
next
  case (UserSwitch i)
  assume "targets_ok s"
  then show ?thesis using UserSwitch by (simp add: targets_ok_activate split: option.split)
next
  case (IsolationTimer w)
  assume "targets_ok s"
  then show ?thesis using IsolationTimer by (simp add: targets_ok_isolationTimer)
next
  case (RestoreTimer w)
  assume "targets_ok s"
  then show ?thesis using RestoreTimer by (simp add: targets_ok_restoreTimer)
next
  case (CleanupTimer key)
  assume "targets_ok s"
  then show ?thesis using CleanupTimer by (simp add: targets_ok_cleanupTimerFired)
next
  case CheckWorkspacesIdle
  assume "targets_ok s"
  then show ?thesis
    using CheckWorkspacesIdle
    by (simp add: checkWorkspacesIdle_def checkWorkspaces_def targets_ok_ensure targets_ok_pending)
next
  case (WindowCreatedIdle w)
  assume "targets_ok s"
  then show ?thesis using WindowCreatedIdle by (simp add: targets_ok_createdIdle)
next
  case (WindowUnmanagedIdle w)
  assume "targets_ok s"
  then show ?thesis using WindowUnmanagedIdle by (simp add: targets_ok_unmanagedIdle)
qed

text \<open>
  Along every sequence of events the fullscreen map has no entry for the main
  workspace.
\<close>

lemma targets_ok_run: "targets_ok s \<Longrightarrow> targets_ok (run evs s)"
  by (induction evs arbitrary: s) (simp_all add: run_def targets_ok_step)

lemma main_never_target:
  "targets_ok s \<Longrightarrow> map_of (fullscreenWorkspaces (run evs s)) 0 = None"
  using targets_ok_run[of s evs] by (simp add: targets_ok_def no_main_target_lookup)

lemma targets_ok_demo: "targets_ok demo"
  by (auto simp: targets_ok_def host_sane_def no_main_target_def demo_def new_window_def)

section \<open>The trailing empty workspace\<close>

text \<open>
  Every handler that moves a window puts it on a workspace that exists, and the
  host keeps the windows on existing workspaces when it removes one. So between two
  events every window is on an existing workspace, which is what the
  trailing-workspace check needs: appending a workspace then appends an empty one.
\<close>

lemma windows_in_range_iff:
  "windows_in_range s \<longleftrightarrow>
     (\<forall>w \<in> set (managed s). \<forall>c. workspace (win s w) = Some c \<longrightarrow> c < n_workspaces s)"
  by (auto simp: windows_in_range_def list_all_iff split: option.splits)

lemma placed_frame:
  assumes "placed s" and "managed s' = managed s"
    and "\<And>w. w \<in> set (managed s) \<Longrightarrow> workspace (win s' w) = workspace (win s w)"
    and "n_workspaces s \<le> n_workspaces s'"
    and "wm_present s' = wm_present s" and "isCreatingWorkspace s' = isCreatingWorkspace s"
  shows "placed s'"
  using assms by (fastforce simp: placed_def windows_in_range_iff)

lemma placed_kiwi:
  assumes "placed s" and "\<And>r. workspace (f r) = workspace r"
  shows "placed (upd_win s w f)"
  using assms by (intro placed_frame[OF assms(1)]) simp_all

lemma placed_change_workspace:
  assumes "placed s" and "i < n_workspaces s"
  shows "placed (change_workspace s w i)"
  using assms by (auto simp: placed_def windows_in_range_iff)

lemma placed_pending:
  assumes "placed s"
  shows "placed (s\<lparr>pendingCleanup := a\<rparr>)" "placed (s\<lparr>pendingIsolation := b\<rparr>)"
    "placed (s\<lparr>pendingRestore := c\<rparr>)" "placed (s\<lparr>pendingWindowCreated := d\<rparr>)"
    "placed (s\<lparr>pendingWindowUnmanaged := e\<rparr>)" "placed (s\<lparr>checkWorkspacesId := f\<rparr>)"
    "placed (s\<lparr>windowSignals := g\<rparr>)" "placed (s\<lparr>fullscreenWorkspaces := h\<rparr>)"
  using assms by (simp_all add: placed_def windows_in_range_iff)

lemma placed_shift_window:
  assumes "placed s" and "t < n_workspaces s"
  shows "placed (shift_window i t x s)"
proof -
  let ?s1 = "change_workspace s x t"
  have a: "placed ?s1" by (rule placed_change_workspace[OF assms])
  let ?s2 = "upd_win ?s1 x (\<lambda>r. r\<lparr>kiwi_fullscreenWorkspaceIndex := Some (i + 1)\<rparr>)"
  have b: "placed ?s2" by (rule placed_kiwi[OF a]) simp
  let ?s3 = "?s2\<lparr>fullscreenWorkspaces := AList.delete i (fullscreenWorkspaces ?s2)\<rparr>"
  have c: "placed ?s3" by (rule placed_pending(8)[OF b])
  have d: "placed (?s3\<lparr>fullscreenWorkspaces := AList.update (i + 1) x (fullscreenWorkspaces ?s3)\<rparr>)"
    by (rule placed_pending(8)[OF c])
  have "shift_window i t x s =
      (if kiwi_fullscreenWorkspaceIndex (win ?s1 x) = Some i
       then ?s3\<lparr>fullscreenWorkspaces := AList.update (i + 1) x (fullscreenWorkspaces ?s3)\<rparr>
       else ?s1)"
    unfolding shift_window_def Let_def by (rule refl)
  then show ?thesis using a d by simp
qed

lemma placed_fold_shift_window:
  "placed s \<Longrightarrow> t < n_workspaces s \<Longrightarrow> placed (fold (shift_window i t) xs s)"
proof (induction xs arbitrary: s)
  case Nil
  then show ?case by simp
next
  case (Cons x xs)
  have "n_workspaces (shift_window i t x s) = n_workspaces s"
    by (rule move_frameD(2)[OF shift_window_frame])
  then show ?case using Cons.IH[of "shift_window i t x s"] Cons.prems
    by (simp add: placed_shift_window)
qed

lemma placed_shift_workspace: "placed s \<Longrightarrow> placed (shift_workspace s i)"
  by (auto simp: shift_workspace_def Let_def get_workspace_by_index_def
      intro!: placed_fold_shift_window split: option.split if_splits)

lemma placed_shift_loop: "placed s \<Longrightarrow> placed (shift_loop s lo k)"
  by (induction k arbitrary: s) (simp_all add: placed_shift_workspace)

lemma placed_append: "placed s \<Longrightarrow> placed (append_guarded s)"
  by (auto simp: placed_def windows_in_range_iff)

lemma placed_ensure: "placed s \<Longrightarrow> placed (ensureEmptyWorkspaceAtEnd s)"
  by (rule placed_frame) (simp_all add: ensure_count_mono)

lemma placed_shiftOccupied:
  "placed s \<Longrightarrow> shiftOccupiedTarget s d = Some s1 \<Longrightarrow> placed s1"
  using shiftOccupiedTarget_cases[of s d s1] placed_append[of s]
  by (auto simp: placed_shift_loop simp del: append_guarded_eq)

lemma placed_findTarget:
  assumes "placed s" and "findTargetWorkspace s d = Some (s1, t)"
  shows "placed s1" "\<And>tw. t = Some tw \<Longrightarrow> tw < n_workspaces s1"
  using assms findTargetWorkspace_cases[OF assms(2)] placed_shiftOccupied[of s d s1]
    findTargetWorkspace_Some(1)[OF assms(2)]
  by (auto simp: findTargetWorkspace_def get_workspace_by_index_def
      split: if_splits option.splits)


text \<open>
  An isolation either stops at the ceiling or ends with the trailing-workspace
  check, run on a state in which every window is on an existing workspace.
\<close>

lemma placed_finishIsolation:
  assumes "placed s" and "t < n_workspaces s"
  shows "\<exists>X. placed X \<and> finishIsolation s w c t = ensureEmptyWorkspaceAtEnd X"
proof -
  let ?s1 = "change_workspace s w t"
  have a: "placed ?s1" by (rule placed_change_workspace[OF assms])
  let ?s2 = "activate ?s1 t"
  have b: "placed ?s2" by (rule placed_frame[OF a]) simp_all
  let ?s3 = "upd_win ?s2 w (\<lambda>r. r\<lparr>kiwi_isolated := True, kiwi_fullscreenWorkspaceIndex := Some t\<rparr>)"
  have c: "placed ?s3" by (rule placed_kiwi[OF b]) simp
  let ?s4 = "?s3\<lparr>fullscreenWorkspaces := AList.update t w (fullscreenWorkspaces ?s3)\<rparr>"
  have d: "placed ?s4" by (rule placed_pending(8)[OF c])
  let ?s6 = "if c > 0 then scheduleWorkspaceCleanup (cancelWorkspaceCleanup ?s4 t) c
             else cancelWorkspaceCleanup ?s4 t"
  have e: "placed ?s6" using placed_pending(1)[OF d] by simp
  have "finishIsolation s w c t = ensureEmptyWorkspaceAtEnd ?s6"
    unfolding finishIsolation_def Let_def by (rule refl)
  then show ?thesis using e by blast
qed

lemma canAppend_placed: "placed s \<Longrightarrow> canAppendWorkspace True s = (n_workspaces s < MAX_WORKSPACES)"
  by (simp add: canAppend_bypass placed_def)

lemma findTarget_None_max:
  assumes "placed s" and "findTargetWorkspace s d = None"
  shows "MAX_WORKSPACES \<le> n_workspaces s"
  using assms
  by (auto simp: findTargetWorkspace_def shiftOccupiedTarget_def Let_def canAppend_placed
      split: if_splits option.splits)

lemma isolate_checked:
  assumes "placed s" and "\<not> kiwi_isolated (win s w)"
  shows "(placed (isolateFullscreenWindow s w)
            \<and> MAX_WORKSPACES \<le> n_workspaces (isolateFullscreenWindow s w))
       \<or> (\<exists>X. placed X \<and> isolateFullscreenWindow s w = ensureEmptyWorkspaceAtEnd X)"
proof -
  have wm: "wm_present s" using assms(1) by (simp add: placed_def)
  let ?c = "currentIndex_of s w"
  show ?thesis
  proof (cases "shouldMove s w")
    case False
    let ?s1 = "upd_win s w (\<lambda>r. r\<lparr>kiwi_isolated := True,
                     kiwi_fullscreenWorkspaceIndex := Some ?c\<rparr>)"
    have s1: "placed ?s1" by (rule placed_kiwi[OF assms(1)]) simp
    have s2: "placed (?s1\<lparr>fullscreenWorkspaces := AList.update ?c w (fullscreenWorkspaces ?s1)\<rparr>)"
      by (rule placed_pending(8)[OF s1])
    have "isolateFullscreenWindow s w = ensureEmptyWorkspaceAtEnd
            (?s1\<lparr>fullscreenWorkspaces := AList.update ?c w (fullscreenWorkspaces ?s1)\<rparr>)"
      using wm assms(2) False by (simp add: isolateFullscreenWindow_def Let_def)
    then show ?thesis using s2 by blast
  next
    case True
    have iso: "isolateFullscreenWindow s w =
      (case findTargetWorkspace s (?c + 1) of
         None \<Rightarrow> s
       | Some (s1, Some targetWs) \<Rightarrow> finishIsolation s1 w ?c targetWs
       | Some (s1, None) \<Rightarrow>
           if canAppendWorkspace True s1
           then finishIsolation (append_guarded s1) w ?c (n_workspaces s1)
           else s1)"
      using wm assms(2) True by (simp add: isolateFullscreenWindow_def Let_def)
    show ?thesis
    proof (cases "findTargetWorkspace s (?c + 1)")
      case None
      then show ?thesis using assms(1) findTarget_None_max[OF assms(1) None] by (simp add: iso)
    next
      case (Some p)
      obtain s1 t where p: "p = (s1, t)" by (cases p)
      have f: "findTargetWorkspace s (?c + 1) = Some (s1, t)" using Some p by simp
      have ok1: "placed s1" by (rule placed_findTarget(1)[OF assms(1) f])
      show ?thesis
      proof (cases t)
        case None
        show ?thesis
        proof (cases "canAppendWorkspace True s1")
          case True
          have "n_workspaces s1 < n_workspaces (append_guarded s1)" by simp
          from placed_finishIsolation[OF placed_append[OF ok1] this, of w ?c] True
          show ?thesis by (simp add: iso f None del: append_guarded_eq)
        next
          case False
          then have "MAX_WORKSPACES \<le> n_workspaces s1" using ok1 by (simp add: canAppend_placed)
          then show ?thesis using ok1 False by (simp add: iso f None)
        qed
      next
        case (Some tw)
        then have "tw < n_workspaces s1" using placed_findTarget(2)[OF assms(1) f] by simp
        from placed_finishIsolation[OF ok1 this, of w ?c]
        show ?thesis by (simp add: iso f Some)
      qed
    qed
  qed
qed

lemma placed_isolate: "placed s \<Longrightarrow> placed (isolateFullscreenWindow s w)"
proof (cases "kiwi_isolated (win s w)")
  case True
  assume "placed s"
  then show ?thesis using True by (simp add: isolateFullscreenWindow_def)
next
  case False
  assume "placed s"
  from isolate_checked[OF this False] show ?thesis using placed_ensure by auto
qed

text \<open>Removing a workspace: the host moves the windows, the index shift leaves them alone.\<close>

lemma shift_entries_workspace:
  "workspace (win (snd (fold (shift_entry r) es (m, s))) x) = workspace (win s x)"
proof (induction es arbitrary: m s)
  case Nil
  then show ?case by simp
next
  case (Cons e es)
  obtain m' s' where se: "shift_entry r e (m, s) = (m', s')"
    by (cases "shift_entry r e (m, s)")
  show ?case
    using Cons.IH[of m' s'] shift_entry_workspace[of r e m s x] by (simp add: se)
qed

lemma shift_indices_workspace:
  "workspace (win (shiftFullscreenIndicesAfterRemove s r) x) = workspace (win s x)"
proof -
  obtain newMap s1 where f: "fold (shift_entry r) (fullscreenWorkspaces s) ([], s) = (newMap, s1)"
    by (cases "fold (shift_entry r) (fullscreenWorkspaces s) ([], s)")
  have w: "workspace (win s1 x) = workspace (win s x)"
    using shift_entries_workspace[of r "fullscreenWorkspaces s" "[]" s x] by (simp add: f)
  have e: "shiftFullscreenIndicesAfterRemove s r =
          fold (shift_original r) (windowSignals s1) (s1\<lparr>fullscreenWorkspaces := newMap\<rparr>)"
    by (simp add: shiftFullscreenIndicesAfterRemove_def f Let_def)
  show ?thesis
    unfolding e
    using shift_originals_workspace[of r "windowSignals s1" "s1\<lparr>fullscreenWorkspaces := newMap\<rparr>"] w
    by simp
qed

lemma placed_shift_indices: "placed s \<Longrightarrow> placed (shiftFullscreenIndicesAfterRemove s r)"
  by (rule placed_frame)
     (simp_all add: shift_indices_workspace move_frameD[OF shiftFullscreenIndicesAfterRemove_frame])

lemma remove_workspace_managed: "managed (remove_workspace s i) = managed s"
  by (simp add: remove_workspace_def Let_def)

lemma placed_remove_and_shift:
  assumes "placed s" and "1 \<le> i" and "i < n_workspaces s"
  shows "placed (remove_and_shift s i)"
proof -
  let ?s1 = "s\<lparr>fullscreenWorkspaces := AList.delete i (fullscreenWorkspaces s)\<rparr>"
  have a: "placed ?s1" by (rule placed_pending(8)[OF assms(1)])
  have b: "placed (remove_workspace ?s1 i)"
    using a assms(2,3)
    by (auto simp: placed_def windows_in_range_iff remove_workspace_fields remove_workspace_managed
          remove_workspace_workspace)
  show ?thesis
    using placed_shift_indices[OF b] by (simp add: remove_and_shift_def Let_def)
qed


text \<open>
  A cleanup that passes its guards either keeps the workspace because it is the
  one empty workspace at the end, or ends with the trailing-workspace check.
\<close>

lemma cleanupWorkspaceIfEmpty_shape:
  "cleanupWorkspaceIfEmpty s i = s
   \<or> cleanupWorkspaceIfEmpty s i = ensureEmptyWorkspaceAtEnd s
   \<or> (0 < i \<and> i < n_workspaces s
      \<and> cleanupWorkspaceIfEmpty s i = ensureEmptyWorkspaceAtEnd (remove_and_shift s i))"
  by (auto simp: cleanupWorkspaceIfEmpty_def Let_def split: option.split)

lemma placed_cleanupWorkspaceIfEmpty:
  assumes "placed s"
  shows "placed (cleanupWorkspaceIfEmpty s i)"
  using cleanupWorkspaceIfEmpty_shape[of s i] assms placed_ensure[OF assms]
    placed_ensure[OF placed_remove_and_shift[OF assms, of i]]
  by auto

lemma cleanupWorkspaceIfEmpty_checked:
  assumes "placed s" and "0 < i" and "i < n_workspaces s" and "MIN_WORKSPACES < n_workspaces s"
  shows "(cleanupWorkspaceIfEmpty s i = s \<and> findLastOccupiedWorkspaceIndex s + 1 = i
            \<and> n_workspaces s = i + 1 \<and> relevant_windows s i = [])
       \<or> (\<exists>X. placed X \<and> cleanupWorkspaceIfEmpty s i = ensureEmptyWorkspaceAtEnd X)"
proof -
  have wm: "wm_present s" using assms(1) by (simp add: placed_def)
  have g: "get_workspace_by_index s i = Some i"
    using assms(2,3) by (simp add: get_workspace_by_index_def)
  have e: "cleanupWorkspaceIfEmpty s i =
     (if length (relevant_windows s i) = 0 \<and> \<not> active_index s = i then
        if i = findLastOccupiedWorkspaceIndex s + 1 \<and> n_workspaces s = i + 1 then s
        else ensureEmptyWorkspaceAtEnd (remove_and_shift s i)
      else ensureEmptyWorkspaceAtEnd s)"
    using wm assms(2,3,4) by (simp add: cleanupWorkspaceIfEmpty_def g Let_def MIN_WORKSPACES_def)
  have r: "placed (remove_and_shift s i)"
    using placed_remove_and_shift[OF assms(1), of i] assms(2,3) by simp
  show ?thesis
    unfolding e using assms(1) r by auto
qed

lemma placed_cleanup_all_loop:
  "placed s \<Longrightarrow> placed (cleanup_all_loop s xs)"
proof (induction xs arbitrary: s)
  case Nil
  then show ?case by simp
next
  case (Cons idx rest)
  show ?case
  proof (cases "0 < idx \<and> idx < n_workspaces s")
    case True
    then have "placed (remove_and_shift s idx)"
      using placed_remove_and_shift[OF Cons.prems, of idx] by simp
    then show ?thesis
      using Cons.IH[of s] Cons.IH[of "remove_and_shift s idx"] Cons.prems
      by (auto split: option.split)
  next
    case False
    then show ?thesis
      using Cons.IH[of s] Cons.prems by (auto split: option.split)
  qed
qed

lemma cleanupAll_checked:
  assumes "placed s" and "MIN_WORKSPACES < n_workspaces s"
  shows "\<exists>X. placed X \<and> cleanupAllEmptyWorkspaces s = ensureEmptyWorkspaceAtEnd X"
proof -
  have wm: "wm_present s" using assms(1) by (simp add: placed_def)
  have "\<exists>xs. cleanupAllEmptyWorkspaces s = ensureEmptyWorkspaceAtEnd (cleanup_all_loop s xs)"
    using wm assms(2) by (auto simp: cleanupAllEmptyWorkspaces_def Let_def)
  then show ?thesis using placed_cleanup_all_loop[OF assms(1)] by blast
qed

lemma placed_cleanupAll:
  assumes "placed s"
  shows "placed (cleanupAllEmptyWorkspaces s)"
proof -
  have "cleanupAllEmptyWorkspaces s = s
      \<or> (\<exists>xs. cleanupAllEmptyWorkspaces s = ensureEmptyWorkspaceAtEnd (cleanup_all_loop s xs))"
    by (auto simp: cleanupAllEmptyWorkspaces_def Let_def)
  then show ?thesis
    using assms placed_ensure[OF placed_cleanup_all_loop[OF assms]] by auto
qed

lemma placed_cleanupTimerFired: "placed s \<Longrightarrow> placed (cleanupTimerFired s key)"
  using placed_cleanupWorkspaceIfEmpty[OF placed_pending(1)]
    placed_cleanupAll[OF placed_pending(1)]
  by (simp add: cleanupTimerFired_def Let_def split: option.split cleanup_task.split)

text \<open>The remaining handlers, and every event.\<close>

lemma placed_activate: "placed s \<Longrightarrow> placed (activate s i)"
  by (rule placed_frame) simp_all

lemma placed_capture: "placed s \<Longrightarrow> placed (captureOriginalWorkspace s w)"
  by (simp add: captureOriginalWorkspace_def placed_kiwi)

lemma placed_scheduleIsolation: "placed s \<Longrightarrow> placed (scheduleIsolation s w)"
  by (simp add: scheduleIsolation_def Let_def placed_capture placed_pending)

lemma placed_restoreWindow: "placed s \<Longrightarrow> placed (restoreWindowFromFullscreen s w)"
proof -
  assume a: "placed s"
  let ?s1 = "cancelPendingRestore s w"
  have s1: "placed ?s1" using a by (simp add: placed_pending)
  let ?s2 = "upd_win ?s1 w (\<lambda>r. r\<lparr>kiwi_isolated := False, kiwi_fullscreenWorkspaceIndex := None\<rparr>)"
  have s2: "placed ?s2" by (rule placed_kiwi[OF s1]) simp
  let ?s3 = "case kiwi_fullscreenWorkspaceIndex (win ?s1 w) of
               Some f \<Rightarrow> ?s2\<lparr>fullscreenWorkspaces := AList.delete f (fullscreenWorkspaces ?s2)\<rparr>
             | None \<Rightarrow> ?s2"
  have s3: "placed ?s3" using s2 placed_pending(8)[OF s2] by (simp split: option.split)
  have "restoreWindowFromFullscreen s w =
     (if \<not> kiwi_isolated (win s w) then s
      else ?s3\<lparr>pendingRestore := (pendingRestore ?s3)
              (w \<mapsto> (kiwi_originalWorkspaceIndex (win ?s1 w), kiwi_fullscreenWorkspaceIndex (win ?s1 w)))\<rparr>)"
    unfolding restoreWindowFromFullscreen_def Let_def by (rule refl)
  then show ?thesis using a placed_pending(3)[OF s3] by simp
qed

lemma placed_onFullscreenChanged:
  "placed s \<Longrightarrow> placed (onWindowFullscreenChanged s w)"
  by (simp add: onWindowFullscreenChanged_def placed_scheduleIsolation
        placed_restoreWindow placed_pending)

lemma placed_connect: "placed s \<Longrightarrow> placed (connectWindowSignals s w)"
  by (simp add: connectWindowSignals_def Let_def placed_onFullscreenChanged
        placed_capture placed_pending)

lemma placed_onWindowCreated: "placed s \<Longrightarrow> placed (onWindowCreated s w)"
  by (simp add: onWindowCreated_def Let_def placed_connect placed_pending)

lemma placed_onWindowUnmanaged: "placed s \<Longrightarrow> placed (onWindowUnmanaged s w)"
  by (simp add: onWindowUnmanaged_eq placed_def windows_in_range_iff)

lemma placed_executeRestore:
  assumes "placed s"
  shows "placed (executeWindowRestore s w oi fi)"
proof -
  let ?t = "case oi of Some orig \<Rightarrow> if orig \<ge> 0 then min orig (max 0 (n_workspaces s - 1)) else 0
            | None \<Rightarrow> 0"
  let ?s1 = "case get_workspace_by_index s ?t of
               Some targetWs \<Rightarrow> activate (change_workspace s w targetWs) targetWs
             | None \<Rightarrow> s"
  have s1: "placed ?s1"
    using assms
    by (auto simp: get_workspace_by_index_def split: option.split
        intro!: placed_activate placed_change_workspace)
  let ?s2 = "upd_win ?s1 w (\<lambda>r. r\<lparr>kiwi_originalWorkspaceIndex := None\<rparr>)"
  have s2: "placed ?s2" by (rule placed_kiwi[OF s1]) simp
  have "executeWindowRestore s w oi fi =
     (if \<not> wm_present s then s
      else case fi of Some f \<Rightarrow> if f > 0 then scheduleWorkspaceCleanup ?s2 f else ?s2
           | None \<Rightarrow> ?s2)"
    unfolding executeWindowRestore_def Let_def by (rule refl)
  then show ?thesis
    using assms s2 placed_pending(1)[OF s2] by (simp split: option.split)
qed

lemma placed_restoreTimer: "placed s \<Longrightarrow> placed (restoreTimerFired s w)"
  by (simp add: restoreTimerFired_def placed_executeRestore placed_pending
        split: option.split)

lemma placed_deferred:
  assumes "placed s"
  shows "placed (windowUnmanagedDeferred s oi fi wi)"
proof -
  let ?s1 = "case oi of
               Some orig \<Rightarrow>
                 if orig \<ge> 0 \<and> orig < n_workspaces s then
                   (case get_workspace_by_index s orig of
                      Some ws \<Rightarrow> if \<not> active_index s = ws then activate s ws else s
                    | None \<Rightarrow> s)
                 else s
             | None \<Rightarrow> s"
  have s1: "placed ?s1"
    using assms by (simp add: placed_activate split: option.split)
  let ?s2 = "case fi of
               Some f \<Rightarrow> ?s1\<lparr>fullscreenWorkspaces := AList.delete f (fullscreenWorkspaces ?s1)\<rparr>
             | None \<Rightarrow> ?s1"
  have s2: "placed ?s2" using s1 placed_pending(8)[OF s1] by (simp split: option.split)
  have "windowUnmanagedDeferred s oi fi wi =
     (if \<not> wm_present s then s
      else case (case fi of Some f \<Rightarrow> Some f | None \<Rightarrow> wi) of
              Some c \<Rightarrow> if c > 0 then scheduleWorkspaceCleanup ?s2 c else ?s2
            | None \<Rightarrow> ?s2)"
    unfolding windowUnmanagedDeferred_def Let_def by (rule refl)
  then show ?thesis
    using assms s2 placed_pending(1)[OF s2] by (simp split: option.split)
qed

lemma placed_unmanagedIdle: "placed s \<Longrightarrow> placed (windowUnmanagedIdle s w)"
  by (simp add: windowUnmanagedIdle_def placed_deferred placed_pending
        split: option.split)

lemma placed_redirect:
  "placed s \<Longrightarrow> placed (redirectWindowFromFullscreenWorkspace s w)"
  by (auto simp: redirectWindowFromFullscreenWorkspace_def getMainWorkspace_def
        get_workspace_by_index_def split: option.split if_splits
        intro!: placed_kiwi placed_change_workspace)

lemma placed_createdIdle: "placed s \<Longrightarrow> placed (windowCreatedIdle s w)"
  by (simp add: windowCreatedIdle_def Let_def placed_ensure placed_redirect
        placed_pending)

lemma placed_isolationTimer: "placed s \<Longrightarrow> placed (isolationTimerFired s w)"
  by (simp add: isolationTimerFired_def Let_def placed_isolate placed_pending)

lemma placed_step: "placed s \<Longrightarrow> placed (step e s)"
proof (cases e)
  case (WindowCreated w sk fs prim i)
  assume a: "placed s"
  have "i < n_workspaces s \<Longrightarrow> placed (s\<lparr>managed := managed s @ [w],
                          win := (win s)(w := new_window sk fs prim i)\<rparr>)"
    using a by (auto simp: placed_def windows_in_range_iff new_window_def)
  then show ?thesis
    using a WindowCreated by (auto intro!: placed_onWindowCreated)
next
  case (FullscreenChanged w b)
  assume a: "placed s"
  have "placed (upd_win s w (\<lambda>r. r\<lparr>fullscreen := b\<rparr>))"
    by (rule placed_kiwi[OF a]) simp
  then show ?thesis
    using a FullscreenChanged by (simp add: Let_def placed_onFullscreenChanged)
next
  case (WindowUnmanaged w)
  assume a: "placed s"
  have "placed s1 \<Longrightarrow>
        placed ((upd_win s1 w (\<lambda>r. r\<lparr>workspace := None\<rparr>))
                      \<lparr>managed := removeAll w (managed s1), destroyed := d\<rparr>)" for s1 d
    by (auto simp: placed_def windows_in_range_iff)
  then show ?thesis
    using a WindowUnmanaged placed_onWindowUnmanaged[OF a, of w]
    by (simp add: Let_def)
next
  case (UserSwitch i)
  assume "placed s"
  then show ?thesis using UserSwitch by (simp add: placed_activate split: option.split)
next
  case (IsolationTimer w)
  assume "placed s"
  then show ?thesis using IsolationTimer by (simp add: placed_isolationTimer)
next
  case (RestoreTimer w)
  assume "placed s"
  then show ?thesis using RestoreTimer by (simp add: placed_restoreTimer)
next
  case (CleanupTimer key)
  assume "placed s"
  then show ?thesis using CleanupTimer by (simp add: placed_cleanupTimerFired)
next
  case CheckWorkspacesIdle
  assume "placed s"
  then show ?thesis
    using CheckWorkspacesIdle
    by (simp add: checkWorkspacesIdle_def checkWorkspaces_def placed_ensure placed_pending)
next
  case (WindowCreatedIdle w)
  assume "placed s"
  then show ?thesis using WindowCreatedIdle by (simp add: placed_createdIdle)
next
  case (WindowUnmanagedIdle w)
  assume "placed s"
  then show ?thesis using WindowUnmanagedIdle by (simp add: placed_unmanagedIdle)
qed

lemma placed_run: "placed s \<Longrightarrow> placed (run evs s)"
  by (induction evs arbitrary: s) (simp_all add: run_def placed_step)

text \<open>What the trailing-workspace check establishes.\<close>

lemma trailing_ok_ensure:
  assumes "placed X"
  shows "trailing_ok (ensureEmptyWorkspaceAtEnd X)"
proof -
  let ?s = "ensureEmptyWorkspaceAtEnd X"
  have p: "wm_present X" "\<not> isCreatingWorkspace X" "windows_in_range X"
    using assms by (simp_all add: placed_def)
  show ?thesis
    unfolding trailing_ok_def trailing_empty_def
  proof (intro impI conjI)
    assume m: "n_workspaces ?s < MAX_WORKSPACES"
    have t: "findLastOccupiedWorkspaceIndex ?s + 1 < n_workspaces ?s"
      by (rule ensure_trailing[OF p m])
    then show "1 \<le> n_workspaces ?s - 1 - findLastOccupiedWorkspaceIndex ?s" by simp
    show "relevant_windows ?s (n_workspaces ?s - 1) = []"
      using t p(1) by (intro findLast_after) simp_all
  qed
qed


lemma trailing_ok_kept:
  assumes "findLastOccupiedWorkspaceIndex s + 1 = i" and "n_workspaces s = i + 1"
    and "relevant_windows s i = []"
  shows "trailing_ok s"
  using assms by (simp add: trailing_ok_def trailing_empty_def)

lemma trailing_ok_max: "MAX_WORKSPACES \<le> n_workspaces s \<Longrightarrow> trailing_ok s"
  by (simp add: trailing_ok_def)

lemma trailing_after_check:
  assumes "placed s"
  shows "checkWorkspacesId s \<Longrightarrow> trailing_ok (step CheckWorkspacesIdle s)"
    and "w \<in> pendingWindowCreated s \<Longrightarrow> trailing_ok (step (WindowCreatedIdle w) s)"
    and "w \<in> pendingIsolation s \<Longrightarrow> fullscreen (win s w) \<Longrightarrow> \<not> kiwi_isolated (win s w) \<Longrightarrow>
           trailing_ok (step (IsolationTimer w) s)"
    and "pendingCleanup s k = Some (CleanupOne idx) \<Longrightarrow> 0 < idx \<Longrightarrow> idx < n_workspaces s \<Longrightarrow>
           MIN_WORKSPACES < n_workspaces s \<Longrightarrow> trailing_ok (step (CleanupTimer k) s)"
    and "pendingCleanup s k = Some CleanupAll \<Longrightarrow> MIN_WORKSPACES < n_workspaces s \<Longrightarrow>
           trailing_ok (step (CleanupTimer k) s)"
proof -
  show "trailing_ok (step CheckWorkspacesIdle s)" if "checkWorkspacesId s"
    using that trailing_ok_ensure[OF placed_pending(6)[OF assms, of False]]
    by (simp add: checkWorkspacesIdle_def checkWorkspaces_def)
  show "trailing_ok (step (WindowCreatedIdle w) s)" if "w \<in> pendingWindowCreated s"
    using that
      trailing_ok_ensure[OF placed_redirect[OF placed_pending(4)[OF assms,
            of "pendingWindowCreated s - {w}"], of w]]
    by (simp add: windowCreatedIdle_def Let_def)
  show "trailing_ok (step (IsolationTimer w) s)"
    if "w \<in> pendingIsolation s" "fullscreen (win s w)" "\<not> kiwi_isolated (win s w)"
  proof -
    let ?s1 = "s\<lparr>pendingIsolation := pendingIsolation s - {w}\<rparr>"
    have e: "step (IsolationTimer w) s = isolateFullscreenWindow ?s1 w"
      using that by (simp add: isolationTimerFired_def Let_def)
    have "\<not> kiwi_isolated (win ?s1 w)" using that(3) by simp
    from isolate_checked[OF placed_pending(2)[OF assms] this]
    show ?thesis unfolding e using trailing_ok_ensure trailing_ok_max by auto
  qed
  show "trailing_ok (step (CleanupTimer k) s)"
    if "pendingCleanup s k = Some (CleanupOne idx)" "0 < idx" "idx < n_workspaces s"
      "MIN_WORKSPACES < n_workspaces s"
  proof -
    let ?s1 = "s\<lparr>pendingCleanup := (pendingCleanup s)(k := None)\<rparr>"
    have e: "step (CleanupTimer k) s = cleanupWorkspaceIfEmpty ?s1 idx"
      using that(1) by (simp add: cleanupTimerFired_def Let_def)
    have "idx < n_workspaces ?s1" "MIN_WORKSPACES < n_workspaces ?s1" using that(3,4) by simp_all
    from cleanupWorkspaceIfEmpty_checked[OF placed_pending(1)[OF assms] that(2) this]
    show ?thesis
      unfolding e using trailing_ok_ensure trailing_ok_kept[of ?s1 idx] by auto
  qed
  show "trailing_ok (step (CleanupTimer k) s)"
    if "pendingCleanup s k = Some CleanupAll" "MIN_WORKSPACES < n_workspaces s"
  proof -
    let ?s1 = "s\<lparr>pendingCleanup := (pendingCleanup s)(k := None)\<rparr>"
    have e: "step (CleanupTimer k) s = cleanupAllEmptyWorkspaces ?s1"
      using that(1) by (simp add: cleanupTimerFired_def Let_def)
    have "MIN_WORKSPACES < n_workspaces ?s1" using that(2) by simp
    from cleanupAll_checked[OF placed_pending(1)[OF assms] this]
    show ?thesis unfolding e using trailing_ok_ensure by auto
  qed
qed

lemma run_snoc: "run (evs @ [e]) s = step e (run evs s)"
  by (simp add: run_def)

subsection \<open>From one check to the next\<close>

text \<open>
  At least one workspace follows the last occupied one exactly when the last
  workspace is empty.
\<close>

lemma relevant_windows_iff:
  "w \<in> set (relevant_windows s i) \<longleftrightarrow>
     w \<in> set (managed s) \<and> workspace (win s w) = Some i \<and> \<not> skip_taskbar (win s w)
     \<and> (isWorkspacesOnlyOnPrimary s \<longrightarrow> on_primary_monitor (win s w))"
  by (auto simp: relevant_windows_def filterWorkspaceRelevantWindows_def list_windows_def)

lemma last_empty_iff:
  assumes "wm_present s" and "1 \<le> n_workspaces s"
  shows "findLastOccupiedWorkspaceIndex s + 1 < n_workspaces s
           \<longleftrightarrow> relevant_windows s (n_workspaces s - 1) = []"
proof
  assume "findLastOccupiedWorkspaceIndex s + 1 < n_workspaces s"
  then show "relevant_windows s (n_workspaces s - 1) = []"
    using assms(1) by (intro findLast_after) simp_all
next
  assume e: "relevant_windows s (n_workspaces s - 1) = []"
  obtain k where k: "nat (n_workspaces s) = Suc k" and ik: "int k = n_workspaces s - 1"
    using assms(2) by (cases "nat (n_workspaces s)") auto
  have "last_occupied_from s (Suc k) = last_occupied_from s k"
    using e ik by (simp add: get_workspace_by_index_def)
  then have "findLastOccupiedWorkspaceIndex s < int k"
    using last_occupied_bounds[of s k] assms(1) by (simp add: findLastOccupiedWorkspaceIndex_def k)
  then show "findLastOccupiedWorkspaceIndex s + 1 < n_workspaces s" using ik by simp
qed

lemma findLast_lower: "-1 \<le> findLastOccupiedWorkspaceIndex s"
  using last_occupied_bounds[of s "nat (n_workspaces s)"]
  by (simp add: findLastOccupiedWorkspaceIndex_def)

lemma trailing_ok_iff:
  assumes "wm_present s"
  shows "trailing_ok s \<longleftrightarrow>
     (n_workspaces s < MAX_WORKSPACES \<longrightarrow>
        1 \<le> n_workspaces s \<and> relevant_windows s (n_workspaces s - 1) = [])"
  using last_empty_iff[OF assms] findLast_lower[of s]
  by (auto simp: trailing_ok_def trailing_empty_def)

text \<open>
  The handlers that run no check leave the last workspace as empty as it was: a
  fullscreen toggle, a closed window, a workspace switch, and a restore that does
  not target the last workspace.
\<close>

lemma keeps_last_refl [simp]: "keeps_last s s"
  by (simp add: keeps_last_def)

lemma keeps_lastD:
  assumes "keeps_last s s'"
  shows "wm_present s' = wm_present s" "n_workspaces s' = n_workspaces s"
    "mutterSettings s' = mutterSettings s" "pendingWindowCreated s' = pendingWindowCreated s"
    "set (managed s') \<subseteq> set (managed s)"
    "skip_taskbar (win s' w) = skip_taskbar (win s w)"
    "on_primary_monitor (win s' w) = on_primary_monitor (win s w)"
    "workspace (win s' w) = Some (n_workspaces s - 1) \<Longrightarrow>
       workspace (win s w) = Some (n_workspaces s - 1)"
  using assms unfolding keeps_last_def by (simp_all, metis)

lemma keeps_lastI:
  assumes "wm_present s' = wm_present s" "n_workspaces s' = n_workspaces s"
    "mutterSettings s' = mutterSettings s" "pendingWindowCreated s' = pendingWindowCreated s"
    "set (managed s') \<subseteq> set (managed s)"
    "\<And>w. skip_taskbar (win s' w) = skip_taskbar (win s w)"
    "\<And>w. on_primary_monitor (win s' w) = on_primary_monitor (win s w)"
    "\<And>w. workspace (win s' w) = Some (n_workspaces s - 1) \<Longrightarrow>
       workspace (win s w) = Some (n_workspaces s - 1)"
  shows "keeps_last s s'"
  using assms unfolding keeps_last_def by metis

lemma keeps_last_trans:
  assumes "keeps_last a b" and "keeps_last b c"
  shows "keeps_last a c"
proof (rule keeps_lastI)
  show "set (managed c) \<subseteq> set (managed a)"
    using keeps_lastD(5)[OF assms(1)] keeps_lastD(5)[OF assms(2)] by blast
  show "workspace (win a w) = Some (n_workspaces a - 1)"
    if "workspace (win c w) = Some (n_workspaces a - 1)" for w
    using that keeps_lastD(8)[OF assms(2), of w] keeps_lastD(8)[OF assms(1), of w]
      keeps_lastD(2)[OF assms(1)] by simp
qed (simp_all add: keeps_lastD[OF assms(1)] keeps_lastD[OF assms(2)])

lemma keeps_last_trailing:
  assumes "keeps_last s s'" and "wm_present s"
    and "trailing_ok s \<or> pendingWindowCreated s \<noteq> {}"
  shows "trailing_ok s' \<or> pendingWindowCreated s' \<noteq> {}"
proof (cases "pendingWindowCreated s = {}")
  case False
  then show ?thesis using keeps_lastD(4)[OF assms(1)] by simp
next
  case True
  then have t: "trailing_ok s" using assms(3) by simp
  have k: "wm_present s'" "n_workspaces s' = n_workspaces s"
    "isWorkspacesOnlyOnPrimary s' = isWorkspacesOnlyOnPrimary s"
    using assms(2) keeps_lastD(1-3)[OF assms(1)] by (simp_all add: isWorkspacesOnlyOnPrimary_def)
  have "set (relevant_windows s' (n_workspaces s - 1)) \<subseteq> set (relevant_windows s (n_workspaces s - 1))"
  proof
    fix x assume "x \<in> set (relevant_windows s' (n_workspaces s - 1))"
    then have x: "x \<in> set (managed s')" "workspace (win s' x) = Some (n_workspaces s - 1)"
      "\<not> skip_taskbar (win s' x)"
      "isWorkspacesOnlyOnPrimary s' \<longrightarrow> on_primary_monitor (win s' x)"
      by (simp_all add: relevant_windows_iff)
    show "x \<in> set (relevant_windows s (n_workspaces s - 1))"
      unfolding relevant_windows_iff
      using x k(3) keeps_lastD(5)[OF assms(1)] keeps_lastD(6,7)[OF assms(1), of x]
        keeps_lastD(8)[OF assms(1) x(2)]
      by auto
  qed
  then have "relevant_windows s (n_workspaces s - 1) = [] \<Longrightarrow>
             relevant_windows s' (n_workspaces s - 1) = []" by auto
  then have "trailing_ok s'"
    using t unfolding trailing_ok_iff[OF assms(2)] trailing_ok_iff[OF k(1)] k(2) by blast
  then show ?thesis by simp
qed


lemma keeps_last_fullscreenChanged: "keeps_last s (onWindowFullscreenChanged s w)"
  by (simp add: keeps_last_def onWindowFullscreenChanged_def scheduleIsolation_def
        captureOriginalWorkspace_def restoreWindowFromFullscreen_def Let_def upd_win_def
        split: option.split)

lemma keeps_last_step_fullscreen: "keeps_last s (step (FullscreenChanged w b) s)"
proof -
  have a: "keeps_last s (upd_win s w (\<lambda>r. r\<lparr>fullscreen := b\<rparr>))"
    by (simp add: keeps_last_def upd_win_def)
  show ?thesis
    using a keeps_last_trans[OF a keeps_last_fullscreenChanged[of _ w]]
    by (simp add: Let_def)
qed

lemma keeps_last_step_unmanaged: "keeps_last s (step (WindowUnmanaged w) s)"
  by (auto simp: keeps_last_def onWindowUnmanaged_eq Let_def upd_win_def)

lemma keeps_last_step_switch: "keeps_last s (step (UserSwitch i) s)"
  by (simp add: keeps_last_def split: option.split)

lemma keeps_last_step_unmanagedIdle: "keeps_last s (step (WindowUnmanagedIdle w) s)"
  by (simp add: keeps_last_def windowUnmanagedIdle_def windowUnmanagedDeferred_def Let_def
        split: option.split)

lemma executeWindowRestore_target:
  "executeWindowRestore s w oi fi =
     (if \<not> wm_present s then s
      else
        let s1 = (case get_workspace_by_index s (restoreTarget s oi) of
                    Some targetWs \<Rightarrow> activate (change_workspace s w targetWs) targetWs
                  | None \<Rightarrow> s);
            s2 = upd_win s1 w (\<lambda>r. r\<lparr>kiwi_originalWorkspaceIndex := None\<rparr>)
        in (case fi of
              Some f \<Rightarrow> if f > 0 then scheduleWorkspaceCleanup s2 f else s2
            | None \<Rightarrow> s2))"
  unfolding executeWindowRestore_def restoreTarget_def Let_def by (rule refl)

lemma keeps_last_restore:
  assumes "restoreTarget s oi < n_workspaces s - 1"
  shows "keeps_last s (executeWindowRestore s w oi fi)"
  using assms
  by (auto simp: executeWindowRestore_target keeps_last_def Let_def get_workspace_by_index_def
        upd_win_def change_workspace_def split: option.split)

lemma keeps_last_step_restore:
  assumes "case pendingRestore s w of
             Some (oi, fi) \<Rightarrow> restoreTarget s oi < n_workspaces s - 1 | None \<Rightarrow> True"
  shows "keeps_last s (step (RestoreTimer w) s)"
proof (cases "pendingRestore s w")
  case None
  then show ?thesis by (simp add: restoreTimerFired_def)
next
  case (Some p)
  obtain oi fi where p: "p = (oi, fi)" by (cases p)
  let ?s1 = "s\<lparr>pendingRestore := (pendingRestore s)(w := None)\<rparr>"
  have a: "keeps_last s ?s1" by (simp add: keeps_last_def)
  have "restoreTarget ?s1 oi = restoreTarget s oi"
    by (simp add: restoreTarget_def split: option.split)
  then have "restoreTarget ?s1 oi < n_workspaces ?s1 - 1"
    using assms Some p by simp
  from keeps_last_trans[OF a keeps_last_restore[OF this, of w fi]]
  show ?thesis using Some p by (simp add: restoreTimerFired_def)
qed

lemma created_pending:
  "w \<in> pendingWindowCreated (onWindowCreated s w)"
  by (simp add: onWindowCreated_def Let_def)

text \<open>
  Every event keeps a trailing empty workspace, or leaves the idle callback of a
  new window pending, which will run the check.
\<close>

lemma step_trailing:
  assumes "placed s" and "trailing_ok s \<or> pendingWindowCreated s \<noteq> {}"
    and "case e of
           RestoreTimer w \<Rightarrow>
             (case pendingRestore s w of
                Some (oi, fi) \<Rightarrow> restoreTarget s oi < n_workspaces s - 1 | None \<Rightarrow> True)
         | _ \<Rightarrow> True"
  shows "trailing_ok (step e s) \<or> pendingWindowCreated (step e s) \<noteq> {}"
proof -
  have wm: "wm_present s" using assms(1) by (simp add: placed_def)
  note k = keeps_last_trailing[OF _ wm assms(2)]
  note t = trailing_after_check[OF assms(1)]
  show ?thesis
  proof (cases e)
    case (WindowCreated w sk fs prim i)
    show ?thesis
    proof (cases "w \<in> set (managed s) \<or> w \<in> destroyed s \<or> \<not> (0 \<le> i \<and> i < n_workspaces s)")
      case True
      then show ?thesis using assms(2) WindowCreated by auto
    next
      case False
      then have "w \<in> pendingWindowCreated (step e s)"
        using WindowCreated created_pending by simp
      then show ?thesis by auto
    qed
  next
    case (FullscreenChanged w b)
    then show ?thesis using k[OF keeps_last_step_fullscreen] by simp
  next
    case (WindowUnmanaged w)
    then show ?thesis using k[OF keeps_last_step_unmanaged] by simp
  next
    case (UserSwitch i)
    then show ?thesis using k[OF keeps_last_step_switch] by simp
  next
    case (IsolationTimer w)
    show ?thesis
    proof (cases "w \<in> pendingIsolation s \<and> fullscreen (win s w) \<and> \<not> kiwi_isolated (win s w)")
      case True
      then show ?thesis using t(3)[of w] IsolationTimer by simp
    next
      case False
      have "keeps_last s (step (IsolationTimer w) s)"
        using False
        by (auto simp: isolationTimerFired_def Let_def isolateFullscreenWindow_def keeps_last_def)
      then show ?thesis using k IsolationTimer by simp
    qed
  next
    case (RestoreTimer w)
    then show ?thesis using k[OF keeps_last_step_restore] assms(3) by simp
  next
    case (CleanupTimer key)
    show ?thesis
    proof (cases "pendingCleanup s key")
      case None
      then show ?thesis using assms(2) CleanupTimer by (simp add: cleanupTimerFired_def)
    next
      case (Some task)
      let ?s1 = "s\<lparr>pendingCleanup := (pendingCleanup s)(key := None)\<rparr>"
      have q: "keeps_last s ?s1" by (simp add: keeps_last_def)
      show ?thesis
      proof (cases task)
        case (CleanupOne idx)
        show ?thesis
        proof (cases "0 < idx \<and> idx < n_workspaces s \<and> MIN_WORKSPACES < n_workspaces s")
          case True
          then show ?thesis using t(4)[of key idx] Some CleanupOne CleanupTimer by simp
        next
          case False
          then have "step e s = ?s1"
            using Some CleanupOne CleanupTimer
            by (auto simp: cleanupTimerFired_def Let_def cleanupWorkspaceIfEmpty_def)
          then show ?thesis using k[OF q] by simp
        qed
      next
        case CleanupAll
        show ?thesis
        proof (cases "MIN_WORKSPACES < n_workspaces s")
          case True
          then show ?thesis using t(5)[of key] Some CleanupAll CleanupTimer by simp
        next
          case False
          then have "step e s = ?s1"
            using Some CleanupAll CleanupTimer
            by (auto simp: cleanupTimerFired_def Let_def cleanupAllEmptyWorkspaces_def)
          then show ?thesis using k[OF q] by simp
        qed
      qed
    qed
  next
    case CheckWorkspacesIdle
    show ?thesis
    proof (cases "checkWorkspacesId s")
      case True
      then show ?thesis using t(1) CheckWorkspacesIdle by simp
    next
      case False
      then show ?thesis using assms(2) CheckWorkspacesIdle by (simp add: checkWorkspacesIdle_def)
    qed
  next
    case (WindowCreatedIdle w)
    show ?thesis
    proof (cases "w \<in> pendingWindowCreated s")
      case True
      then show ?thesis using t(2)[of w] WindowCreatedIdle by simp
    next
      case False
      then show ?thesis using assms(2) WindowCreatedIdle by (simp add: windowCreatedIdle_def)
    qed
  next
    case (WindowUnmanagedIdle w)
    then show ?thesis using k[OF keeps_last_step_unmanagedIdle] by simp
  qed
qed

lemma run_trailing:
  "placed s \<Longrightarrow> trailing_ok s \<or> pendingWindowCreated s \<noteq> {} \<Longrightarrow> restores_spare_last evs s \<Longrightarrow>
   trailing_ok (run evs s) \<or> pendingWindowCreated (run evs s) \<noteq> {}"
proof (induction evs arbitrary: s)
  case Nil
  then show ?case by (simp add: run_def)
next
  case (Cons e evs)
  have r: "run (e # evs) s = run evs (step e s)" by (simp add: run_def)
  have c: "case e of
           RestoreTimer w \<Rightarrow>
             (case pendingRestore s w of
                Some (oi, fi) \<Rightarrow> restoreTarget s oi < n_workspaces s - 1 | None \<Rightarrow> True)
         | _ \<Rightarrow> True"
    using Cons.prems(3) by simp
  show ?case
    unfolding r
    using Cons.IH[OF placed_step[OF Cons.prems(1)] step_trailing[OF Cons.prems(1,2) c]]
      Cons.prems(3)
    by simp
qed



subsection \<open>Settled states with two trailing empty workspaces, and with none\<close>

lemma stale_restore_settled: "no_pending (run stale_restore demo_iso)"
  unfolding stale_restore_def
  by (simp add: run_def demo_iso_def demo_def new_window_def
      onWindowUnmanaged_def windowUnmanagedIdle_def windowUnmanagedDeferred_def
      cancelPendingIsolation_def cancelPendingRestore_def disconnectWindowSignals_def
      activate_def onWorkspaceSwitched_def cancelWorkspaceCleanup_def scheduleWorkspaceCleanup_def
      isDynamicWorkspaceMode_def isWorkspacesOnlyOnPrimary_def
      get_workspace_by_index_def upd_win_def change_workspace_def
      onWindowFullscreenChanged_def restoreWindowFromFullscreen_def
      cleanupTimerFired_def cleanupWorkspaceIfEmpty_def relevant_windows_def
      filterWorkspaceRelevantWindows_def list_windows_def findLastOccupiedWorkspaceIndex_def
      ensureEmptyWorkspaceAtEnd_def ensure_min_loop_id canAppendWorkspace_def
      remove_and_shift_def remove_workspace_def shiftFullscreenIndicesAfterRemove_def
      shift_entry_def shift_original_def queueCheckWorkspaces_def
      checkWorkspacesIdle_def checkWorkspaces_def restoreTimerFired_def executeWindowRestore_def
      MIN_WORKSPACES_def MAX_WORKSPACES_def KEEP_EMPTY_WORKSPACE_AT_END_def Let_def
      no_pending_def eval_nat_numeral
      del: queueCheck_eq append_guarded_eq cancelCleanup_eq scheduleCleanup_eq
        cancelPendingIsolation_eq cancelPendingRestore_eq disconnectWindowSignals_eq)

lemma close_on_active_settled: "no_pending (run close_on_active demo)"
  unfolding close_on_active_def demo_close_2_cleanup
  by (simp add: no_pending_def demo_closed_def demo_def)


end
